theory Spec2Isabelle
  imports Main "HOL-Library.Sublist"
begin

section \<open>Python values used by the three scripts\<close>

subsection \<open>Strings\<close>

text \<open>
  A Python \<open>str\<close> is a sequence of Unicode code points, and \<open>len\<close> and slicing count
  code points. A string is therefore a list of code points (natural numbers); the ASCII
  literals of the source are written with \<open>ustr\<close>.
\<close>

type_synonym ustring = "nat list"

definition ustr :: "string \<Rightarrow> ustring" where
  "ustr s = map of_char s"

text \<open>
  The characters \<open>str.split()\<close> and \<open>str.strip()\<close> treat as whitespace
  (CPython's \<open>Py_UNICODE_ISSPACE\<close>).
\<close>

definition is_space :: "nat \<Rightarrow> bool" where
  "is_space c =
     ((9 \<le> c \<and> c \<le> 13) \<or> (28 \<le> c \<and> c \<le> 32) \<or> c = 133 \<or> c = 160 \<or> c = 5760
      \<or> (8192 \<le> c \<and> c \<le> 8202) \<or> c = 8232 \<or> c = 8233 \<or> c = 8239 \<or> c = 8287
      \<or> c = 12288)"

text \<open>\<open>text.split()\<close>: the maximal runs of non-whitespace, in order; \<open>w\<close> is the run
  being read.\<close>

fun split_from :: "ustring \<Rightarrow> ustring \<Rightarrow> ustring list" where
  "split_from w [] = (if w = [] then [] else [w])"
| "split_from w (c # cs) =
     (if is_space c then (if w = [] then split_from [] cs else w # split_from [] cs)
      else split_from (w @ [c]) cs)"

definition py_split :: "ustring \<Rightarrow> ustring list" where
  "py_split s = split_from [] s"

text \<open>\<open>sep.join(ws)\<close>; the separator of \<open>" ".join(ws)\<close> is \<open>[32]\<close>.\<close>

fun py_join :: "ustring \<Rightarrow> ustring list \<Rightarrow> ustring" where
  "py_join sep [] = []"
| "py_join sep [w] = w"
| "py_join sep (w # v # ws) = w @ sep @ py_join sep (v # ws)"

text \<open>\<open>s.strip()\<close>\<close>

definition py_strip :: "ustring \<Rightarrow> ustring" where
  "py_strip s = rev (dropWhile is_space (rev (dropWhile is_space s)))"

text \<open>
  \<open>xs[lo:hi]\<close> for integers of either sign: a negative bound counts from the end, and
  both bounds are clamped to the list.
\<close>

definition slice_bound :: "nat \<Rightarrow> int \<Rightarrow> nat" where
  "slice_bound n i = (if i < 0 then nat (max (i + int n) 0) else min (nat i) n)"

definition py_slice :: "'a list \<Rightarrow> int \<Rightarrow> int \<Rightarrow> 'a list" where
  "py_slice xs lo hi =
     (let l = slice_bound (length xs) lo; h = slice_bound (length xs) hi
      in take (h - l) (drop l xs))"

text \<open>
  \<open>s.replace(old, new)\<close>: every occurrence of \<open>old\<close>, found from left to right
  without overlap.
\<close>

function py_replace :: "ustring \<Rightarrow> ustring \<Rightarrow> ustring \<Rightarrow> ustring" where
  "py_replace old new [] = (if old = [] then new else [])"
| "py_replace old new (c # cs) =
     (if old = [] then new @ c # py_replace old new cs
      else if take (length old) (c # cs) = old
        then new @ py_replace old new (drop (length old) (c # cs))
      else c # py_replace old new cs)"
  by pat_completeness auto
termination
  by (relation "measure (\<lambda>(old, new, s). length s)") auto

subsection \<open>Exceptions\<close>

text \<open>
  The exceptions the scripts can meet, all of them subclasses of \<open>Exception\<close>. A
  failure of a remote service (Bedrock, Qdrant, the embedding model), a timeout included,
  is \<open>ServiceError\<close> with the text of the failure.
\<close>

datatype exn =
  KeyError | IndexError | TypeError | AttributeError | JSONDecodeError | OSError
  | UnexpectedResponse | ServiceError ustring

subsection \<open>JSON values\<close>

text \<open>
  What \<open>json.loads\<close> returns: \<open>None\<close>, a \<open>bool\<close>, an \<open>int\<close>, a \<open>float\<close>
  (\<open>JFloat m e\<close> stands for \<open>m * 2 ** e\<close>; no script looks inside a float), a
  \<open>str\<close>, a \<open>list\<close> or a \<open>dict\<close> with string keys. A dict is the list of its
  items in insertion order; a lookup takes the first item with the key.
\<close>

datatype json =
  JNull | JBool bool | JInt int | JFloat int int | JStr ustring
  | JArr "json list" | JObj "(ustring \<times> json) list"

text \<open>\<open>x[key]\<close> for a string key.\<close>

fun getitem :: "json \<Rightarrow> ustring \<Rightarrow> exn + json" where
  "getitem (JObj kvs) k = (case map_of kvs k of Some v \<Rightarrow> Inr v | None \<Rightarrow> Inl KeyError)"
| "getitem _ k = Inl TypeError"

text \<open>\<open>x[0]\<close>\<close>

fun getitem0 :: "json \<Rightarrow> exn + json" where
  "getitem0 (JArr (v # vs)) = Inr v"
| "getitem0 (JArr []) = Inl IndexError"
| "getitem0 (JStr (c # cs)) = Inr (JStr [c])"
| "getitem0 (JStr []) = Inl IndexError"
| "getitem0 (JObj kvs) = Inl KeyError"
| "getitem0 _ = Inl TypeError"

text \<open>\<open>d.get(key, default)\<close> on the items of a dict.\<close>

definition dict_get :: "(ustring \<times> json) list \<Rightarrow> ustring \<Rightarrow> json \<Rightarrow> json" where
  "dict_get kvs k d = (case map_of kvs k of Some v \<Rightarrow> v | None \<Rightarrow> d)"

text \<open>Sequencing of steps that may raise: the first exception ends the sequence.\<close>

definition and_then :: "exn + 'a \<Rightarrow> ('a \<Rightarrow> exn + 'b) \<Rightarrow> exn + 'b" where
  "and_then m f = (case m of Inl e \<Rightarrow> Inl e | Inr x \<Rightarrow> f x)"

text \<open>\<open>output["output"]["message"]["content"][0]["text"]\<close>, read by both
  \<open>enrich_chunk\<close> and \<open>rag_answer\<close>.\<close>

definition message_text :: "json \<Rightarrow> exn + json" where
  "message_text output =
     and_then (getitem output (ustr ''output'')) (\<lambda>a.
     and_then (getitem a (ustr ''message'')) (\<lambda>b.
     and_then (getitem b (ustr ''content'')) (\<lambda>c.
     and_then (getitem0 c) (\<lambda>d. getitem d (ustr ''text'')))))"

subsection \<open>The services the scripts call\<close>

text \<open>
  The language model, the embedding model, the vector index, the JSON parser and the
  file system are outside the scripts. What they answer is a parameter of every function
  below:
  \<^item> \<open>invoke_model n prompt\<close>: \<open>bedrock.invoke_model(...)\<close> followed by
    \<open>response["body"].read()\<close>, for the \<open>n\<close>-th call of a run (the model may answer
    the same prompt differently each time); the model id and the inference
    configuration are constants of the source, the prompt is the only varying part;
  \<^item> \<open>json_loads\<close>: \<open>json.loads\<close>;
  \<^item> \<open>encode n s\<close>: \<open>embedder.encode(s).tolist()\<close>, for the \<open>n\<close>-th call of a run;
  \<^item> \<open>query_points v k\<close>: the payloads of the points that
    \<open>qdrant.query_points(collection_name=COLLECTION, query=v, limit=k)\<close> returns, in
    rank order;
  \<^item> \<open>write_catalog\<close>: writing \<open>chunker/chunks.json\<close> with \<open>json.dump\<close>, \<open>None\<close>
    when it succeeds;
  \<^item> \<open>py_repr\<close>: what \<open>str()\<close> gives for a value that is not a string;
  \<^item> \<open>exn_str\<close>: \<open>str(e)\<close> for an exception.
\<close>

record 'v services =
  invoke_model :: "nat \<Rightarrow> ustring \<Rightarrow> exn + ustring"
  json_loads :: "ustring \<Rightarrow> exn + json"
  encode :: "nat \<Rightarrow> ustring \<Rightarrow> exn + 'v"
  query_points :: "'v \<Rightarrow> int \<Rightarrow> exn + json list"
  write_catalog :: "json list \<Rightarrow> exn option"
  py_repr :: "json \<Rightarrow> ustring"
  exn_str :: "exn \<Rightarrow> ustring"

text \<open>A value inside an f-string: a string stands for itself, anything else is printed.\<close>

definition fstr :: "'v services \<Rightarrow> json \<Rightarrow> ustring" where
  "fstr S v = (case v of JStr s \<Rightarrow> s | _ \<Rightarrow> py_repr S v)"

section \<open>chunker.py\<close>

subsection \<open>split_text\<close>

text \<open>
  The \<open>while\<close> loop of \<open>split_text\<close>, with the loop variables \<open>start\<close> and \<open>chunks\<close>
  as arguments. Python integers are unbounded, so \<open>chunk_size\<close>, \<open>overlap\<close> and
  \<open>start\<close> are integers. The loop need not end, so a run that never leaves it is
  \<open>None\<close>.
\<close>

partial_function (option) split_loop ::
  "ustring list \<Rightarrow> int \<Rightarrow> int \<Rightarrow> int \<Rightarrow> ustring list \<Rightarrow> ustring list option" where
  "split_loop words chunk_size overlap start chunks =
     (if start < int (length words) then
        (let end = start + chunk_size;
             chunk = py_join [32] (py_slice words start end);
             chunks' = (if length (py_strip chunk) > 50 then chunks @ [chunk] else chunks)
         in split_loop words chunk_size overlap (start + (chunk_size - overlap)) chunks')
      else Some chunks)"

declare split_loop.simps [code]

definition split_text :: "ustring \<Rightarrow> int \<Rightarrow> int \<Rightarrow> ustring list option" where
  "split_text text chunk_size overlap = split_loop (py_split text) chunk_size overlap 0 []"


subsection \<open>enrich_chunk\<close>

definition enrich_prompt :: "ustring \<Rightarrow> ustring" where
  "enrich_prompt chunk_text =
     ustr ''\<newline>You are an intelligent document analyst for Metricon Homes.\<newline>''
     @ ustr ''Analyze the following text chunk and return a JSON object with these exact fields:\<newline>''
     @ ustr ''- title: A short descriptive title (max 10 words)\<newline>''
     @ ustr ''- summary: A concise summary (max 50 words)\<newline>''
     @ ustr ''- keywords: A list of 5 important keywords\<newline>''
     @ ustr ''- category: One of [Building Process, Costs & Finance, Why Metricon, FAQ, General]\<newline>''
     @ ustr ''- importance: A score from 1-10 indicating usefulness for customer queries\<newline>''
     @ ustr ''\<newline>Text chunk:\<newline>'' @ chunk_text
     @ ustr ''\<newline>\<newline>Respond ONLY with a valid JSON object. No explanation, no markdown, no extra text.\<newline>''"

text \<open>\<open>raw.strip().replace("```json", "").replace("```", "").strip()\<close>; only a string
  has \<open>strip\<close>.\<close>

fun sanitize :: "json \<Rightarrow> exn + ustring" where
  "sanitize (JStr raw) =
     Inr (py_strip (py_replace (ustr ''```'') [] (py_replace (ustr ''```json'') [] (py_strip raw))))"
| "sanitize _ = Inl AttributeError"

text \<open>The body of the \<open>try\<close> block: the value it returns, or the exception that leaves it.\<close>

definition enrich_try :: "'v services \<Rightarrow> nat \<Rightarrow> ustring \<Rightarrow> exn + json" where
  "enrich_try S n chunk_text =
     and_then (invoke_model S n (enrich_prompt chunk_text)) (\<lambda>body.
     and_then (json_loads S body) (\<lambda>output.
     and_then (message_text output) (\<lambda>raw.
     and_then (sanitize raw) (\<lambda>raw'. json_loads S raw'))))"

text \<open>The dict of the \<open>except\<close> branch.\<close>

definition default_metadata :: "ustring \<Rightarrow> json" where
  "default_metadata chunk_text =
     JObj [(ustr ''title'', JStr (ustr ''General Information'')),
           (ustr ''summary'', JStr (take 100 chunk_text)),
           (ustr ''keywords'', JArr []),
           (ustr ''category'', JStr (ustr ''General'')),
           (ustr ''importance'', JInt 5)]"

text \<open>\<open>enrich_chunk\<close> as the \<open>n\<close>-th call of the model in a run; \<open>source\<close> is
  not used by the body.\<close>

definition enrich_chunk :: "'v services \<Rightarrow> nat \<Rightarrow> ustring \<Rightarrow> ustring \<Rightarrow> json" where
  "enrich_chunk S n chunk_text source =
     (case enrich_try S n chunk_text of Inr enriched \<Rightarrow> enriched
      | Inl e \<Rightarrow> default_metadata chunk_text)"

subsection \<open>agentic_chunking_pipeline\<close>

record document =
  doc_source :: ustring
  doc_text :: ustring

text \<open>An entry of \<open>all_chunks\<close>. The five fields taken from the enrichment hold whatever
  JSON value the enrichment had there.\<close>

record enriched_chunk =
  c_id :: nat
  c_source :: ustring
  c_text :: ustring
  c_title :: json
  c_summary :: json
  c_keywords :: json
  c_category :: json
  c_importance :: json

text \<open>The dict appended to \<open>all_chunks\<close>. Only a dict has \<open>get\<close>: for any other
  value the first \<open>enriched.get\<close> raises \<open>AttributeError\<close>, which nothing catches.\<close>

fun new_chunk :: "nat \<Rightarrow> ustring \<Rightarrow> ustring \<Rightarrow> json \<Rightarrow> exn + enriched_chunk" where
  "new_chunk chunk_id source chunk (JObj kvs) =
     Inr \<lparr>c_id = chunk_id, c_source = source, c_text = chunk,
          c_title = dict_get kvs (ustr ''title'') (JStr []),
          c_summary = dict_get kvs (ustr ''summary'') (JStr []),
          c_keywords = dict_get kvs (ustr ''keywords'') (JArr []),
          c_category = dict_get kvs (ustr ''category'') (JStr (ustr ''General'')),
          c_importance = dict_get kvs (ustr ''importance'') (JInt 5)\<rparr>"
| "new_chunk chunk_id source chunk _ = Inl AttributeError"

text \<open>
  The inner loop over the raw chunks of one document, with \<open>all_chunks\<close> and
  \<open>chunk_id\<close> as state. Every chunk makes one call of the model and \<open>chunk_id\<close>
  starts at 0 and grows by one per chunk, so the chunk with id \<open>chunk_id\<close> is enriched
  by call number \<open>chunk_id\<close>.
\<close>

fun enrich_all ::
  "'v services \<Rightarrow> ustring \<Rightarrow> ustring list \<Rightarrow> enriched_chunk list \<Rightarrow> nat
   \<Rightarrow> exn + enriched_chunk list \<times> nat" where
  "enrich_all S source [] all_chunks chunk_id = Inr (all_chunks, chunk_id)"
| "enrich_all S source (chunk # rest) all_chunks chunk_id =
     (let enriched = enrich_chunk S chunk_id chunk source
      in case new_chunk chunk_id source chunk enriched of
           Inl e \<Rightarrow> Inl e
         | Inr c \<Rightarrow> enrich_all S source rest (all_chunks @ [c]) (chunk_id + 1))"

text \<open>The outer loop over the documents; \<open>split_text\<close> is called with its defaults.\<close>

fun process_documents ::
  "'v services \<Rightarrow> document list \<Rightarrow> enriched_chunk list \<Rightarrow> nat
   \<Rightarrow> (exn + enriched_chunk list \<times> nat) option" where
  "process_documents S [] all_chunks chunk_id = Some (Inr (all_chunks, chunk_id))"
| "process_documents S (doc # docs) all_chunks chunk_id =
     (case split_text (doc_text doc) 400 50 of
        None \<Rightarrow> None
      | Some raw_chunks \<Rightarrow>
          (case enrich_all S (doc_source doc) raw_chunks all_chunks chunk_id of
             Inl e \<Rightarrow> Some (Inl e)
           | Inr (all_chunks', chunk_id') \<Rightarrow> process_documents S docs all_chunks' chunk_id'))"

text \<open>An entry as \<open>json.dump\<close> writes it.\<close>

definition chunk_json :: "enriched_chunk \<Rightarrow> json" where
  "chunk_json c =
     JObj [(ustr ''id'', JInt (int (c_id c))), (ustr ''source'', JStr (c_source c)),
           (ustr ''text'', JStr (c_text c)), (ustr ''title'', c_title c),
           (ustr ''summary'', c_summary c), (ustr ''keywords'', c_keywords c),
           (ustr ''category'', c_category c), (ustr ''importance'', c_importance c)]"

text \<open>
  The pipeline on the documents that \<open>load_pdfs\<close> returned: \<open>None\<close> if it never
  returns, an exception if one leaves it, else the catalog it returns and has written.
\<close>

definition agentic_chunking_pipeline ::
  "'v services \<Rightarrow> document list \<Rightarrow> (exn + enriched_chunk list) option" where
  "agentic_chunking_pipeline S documents =
     (case process_documents S documents [] 0 of
        None \<Rightarrow> None
      | Some (Inl e) \<Rightarrow> Some (Inl e)
      | Some (Inr (all_chunks, chunk_id)) \<Rightarrow>
          (case write_catalog S (map chunk_json all_chunks) of
             Some e \<Rightarrow> Some (Inl e)
           | None \<Rightarrow> Some (Inr all_chunks)))"


section \<open>data_ingestion.py\<close>

text \<open>
  The Qdrant server as the scripts use it: collections by name, and in a collection the
  points by id, each with its vector and payload. \<open>delete_collection\<close> removes a name,
  \<open>create_collection\<close> binds a name to an empty collection, and \<open>upsert\<close> stores the
  points of a batch in order, a later point replacing an earlier one with the same id.
  The server refuses an \<open>upsert\<close> into a collection it does not have and an \<open>upsert\<close>
  of an empty batch; the client raises \<open>UnexpectedResponse\<close> for both.
\<close>

type_synonym 'v collection = "nat \<rightharpoonup> 'v \<times> json"

type_synonym 'v qdrant = "ustring \<rightharpoonup> 'v collection"

record 'v point_struct =
  point_id :: nat
  vector :: 'v
  payload :: json

definition COLLECTION :: ustring where
  "COLLECTION = ustr ''metricon_rag''"

definition create_collection :: "'v qdrant \<Rightarrow> 'v qdrant" where
  "create_collection q =
     (let q' = (case q COLLECTION of Some existing \<Rightarrow> q(COLLECTION := None) | None \<Rightarrow> q)
      in q'(COLLECTION \<mapsto> Map.empty))"

definition upsert :: "'v qdrant \<Rightarrow> ustring \<Rightarrow> 'v point_struct list \<Rightarrow> exn + 'v qdrant" where
  "upsert q name points =
     (case q name of
        None \<Rightarrow> Inl UnexpectedResponse
      | Some coll \<Rightarrow>
          if points = [] then Inl UnexpectedResponse
          else Inr (q(name \<mapsto>
                 fold (\<lambda>p m. m(point_id p \<mapsto> (vector p, payload p))) points coll)))"

text \<open>\<open>f"{chunk['title']} {chunk['summary']} {chunk['text']}"\<close>\<close>

definition text_to_embed :: "'v services \<Rightarrow> enriched_chunk \<Rightarrow> ustring" where
  "text_to_embed S chunk =
     fstr S (c_title chunk) @ [32] @ fstr S (c_summary chunk) @ [32] @ c_text chunk"

definition chunk_payload :: "enriched_chunk \<Rightarrow> json" where
  "chunk_payload chunk =
     JObj [(ustr ''text'', JStr (c_text chunk)), (ustr ''title'', c_title chunk),
           (ustr ''summary'', c_summary chunk), (ustr ''keywords'', c_keywords chunk),
           (ustr ''category'', c_category chunk), (ustr ''importance'', c_importance chunk),
           (ustr ''source'', JStr (c_source chunk))]"

text \<open>The loop of \<open>ingest_chunks\<close> over the catalog; \<open>n\<close> counts the calls of the
  embedding model so far. No exception is caught in this script.\<close>

fun build_points ::
  "'v services \<Rightarrow> nat \<Rightarrow> enriched_chunk list \<Rightarrow> 'v point_struct list
   \<Rightarrow> exn + 'v point_struct list" where
  "build_points S n [] points = Inr points"
| "build_points S n (chunk # chunks) points =
     (case encode S n (text_to_embed S chunk) of
        Inl e \<Rightarrow> Inl e
      | Inr v \<Rightarrow>
          build_points S (n + 1) chunks
            (points @ [\<lparr>point_id = c_id chunk, vector = v, payload = chunk_payload chunk\<rparr>]))"

text \<open>\<open>ingest_chunks\<close> on the catalog read from \<open>chunker/chunks.json\<close>.\<close>

definition ingest_chunks ::
  "'v services \<Rightarrow> enriched_chunk list \<Rightarrow> 'v qdrant \<Rightarrow> exn + 'v qdrant" where
  "ingest_chunks S chunks q =
     (case build_points S 0 chunks [] of
        Inl e \<Rightarrow> Inl e
      | Inr points \<Rightarrow> upsert q COLLECTION points)"

text \<open>The script: \<open>create_collection()\<close>, then \<open>ingest_chunks()\<close>.\<close>

definition data_ingestion ::
  "'v services \<Rightarrow> enriched_chunk list \<Rightarrow> 'v qdrant \<Rightarrow> exn + 'v qdrant" where
  "data_ingestion S chunks q = ingest_chunks S chunks (create_collection q)"

text \<open>What a build leaves in the index: the ids of the collection, and the payload of
  each.\<close>

definition index_ids :: "'v qdrant \<Rightarrow> nat set" where
  "index_ids q = (case q COLLECTION of None \<Rightarrow> {} | Some coll \<Rightarrow> dom coll)"

definition index_payload :: "'v qdrant \<Rightarrow> nat \<Rightarrow> json option" where
  "index_payload q i =
     (case q COLLECTION of None \<Rightarrow> None | Some coll \<Rightarrow> map_option snd (coll i))"

section \<open>app.py\<close>

datatype role = User | Assistant

record turn =
  role :: role
  content :: json

definition no_context_message :: ustring where
  "no_context_message =
     [9888, 65039]
     @ ustr '' No relevant information found. Please contact Metricon on 1300 786 773.''"

definition error_indicator :: ustring where
  "error_indicator = 10060 # ustr '' Error: ''"

definition rag_prompt :: "ustring \<Rightarrow> ustring \<Rightarrow> ustring" where
  "rag_prompt context question =
     ustr ''\<newline>You are a friendly and professional AI assistant for Metricon Homes Australia.\<newline>''
     @ ustr ''Answer the customer''
     @ 39 # ustr ''s question using ONLY the provided context.\<newline>''
     @ ustr ''Be warm, helpful and concise. Use dot points where appropriate.\<newline>''
     @ ustr ''If the answer is not in the context, say '' @ 34 # ustr ''I don'' @ 39
     # ustr ''t have that information. Please contact Metricon on 1300 786 773 or visit metricon.com.au''
     @ 34 # ustr ''\<newline>\<newline>CONTEXT:\<newline>'' @ context
     @ ustr ''\<newline>\<newline>QUESTION:\<newline>'' @ question
     @ ustr ''\<newline>\<newline>ANSWER:\<newline>''"

text \<open>
  The \<open>for\<close> loop over \<open>results.points\<close>, with \<open>context_chunks\<close> and \<open>sources\<close>
  as state. The payload is read in the order category, title, text, source, importance;
  the first key that is missing raises.
\<close>

fun collect_points ::
  "'v services \<Rightarrow> json list \<Rightarrow> ustring list \<Rightarrow> ustring list
   \<Rightarrow> exn + ustring list \<times> ustring list" where
  "collect_points S [] context_chunks sources = Inr (context_chunks, sources)"
| "collect_points S (p # ps) context_chunks sources =
     and_then (getitem p (ustr ''category'')) (\<lambda>category.
     and_then (getitem p (ustr ''title'')) (\<lambda>title.
     and_then (getitem p (ustr ''text'')) (\<lambda>txt.
     and_then (getitem p (ustr ''source'')) (\<lambda>source.
     and_then (getitem p (ustr ''importance'')) (\<lambda>importance.
       collect_points S ps
         (context_chunks
          @ [ustr ''['' @ fstr S category @ ustr ''] '' @ fstr S title @ 10 # fstr S txt])
         (sources
          @ [128196 # ustr '' **'' @ fstr S title @ ustr ''**'' @ 10 # 128194 # 32
             # fstr S source @ ustr '' | '' @ [127991, 65039, 32] @ fstr S category
             @ ustr '' | '' @ 11088 # 32 # fstr S importance @ ustr ''/10'']))))))"

text \<open>
  The state of a call of \<open>rag_answer\<close>: the list \<open>history\<close>, which the function
  appends to in place, and the prompts sent to the language model so far.
\<close>

record run =
  history :: "turn list"
  model_calls :: "ustring list"

text \<open>
  The body of the \<open>try\<close> block: the state when it is left, and either the exception
  that left it or the source text it returns with the history.
\<close>

definition rag_try ::
  "'v services \<Rightarrow> ustring \<Rightarrow> turn list \<Rightarrow> int \<Rightarrow> bool \<Rightarrow> run \<times> (exn + ustring)" where
  "rag_try S question hist top_k show_sources =
     (let r0 = \<lparr>history = hist, model_calls = []\<rparr> in
      case encode S 0 question of
        Inl e \<Rightarrow> (r0, Inl e)
      | Inr query_vec \<Rightarrow>
      (case query_points S query_vec top_k of
        Inl e \<Rightarrow> (r0, Inl e)
      | Inr points \<Rightarrow>
      if points = [] then
        (r0\<lparr>history := hist @ [\<lparr>role = User, content = JStr question\<rparr>,
                               \<lparr>role = Assistant, content = JStr no_context_message\<rparr>]\<rparr>,
         Inr [])
      else
      (case collect_points S points [] [] of
        Inl e \<Rightarrow> (r0, Inl e)
      | Inr (context_chunks, sources) \<Rightarrow>
      (let prompt = rag_prompt (py_join [10, 10] context_chunks) question;
           r1 = r0\<lparr>model_calls := [prompt]\<rparr> in
       case invoke_model S 0 prompt of
        Inl e \<Rightarrow> (r1, Inl e)
      | Inr body \<Rightarrow>
      (case json_loads S body of
        Inl e \<Rightarrow> (r1, Inl e)
      | Inr output \<Rightarrow>
      (case message_text output of
        Inl e \<Rightarrow> (r1, Inl e)
      | Inr answer \<Rightarrow>
        (r1\<lparr>history := hist @ [\<lparr>role = User, content = JStr question\<rparr>,
                               \<lparr>role = Assistant, content = answer\<rparr>]\<rparr>,
         Inr (if show_sources then py_join [10, 10] sources else []))))))))"

text \<open>
  \<open>rag_answer\<close>: the pair it returns (the history and the source text), and the prompts
  it sent to the language model. The handler appends to the list as the \<open>try\<close> block
  left it.
\<close>

definition rag_answer ::
  "'v services \<Rightarrow> ustring \<Rightarrow> turn list \<Rightarrow> int \<Rightarrow> bool
   \<Rightarrow> (turn list \<times> ustring) \<times> ustring list" where
  "rag_answer S question hist top_k show_sources =
     (case rag_try S question hist top_k show_sources of
        (r, Inr sources_text) \<Rightarrow> ((history r, sources_text), model_calls r)
      | (r, Inl e) \<Rightarrow>
          ((history r @ [\<lparr>role = User, content = JStr question\<rparr>,
                         \<lparr>role = Assistant,
                          content = JStr (error_indicator @ exn_str S e)\<rparr>], []),
           model_calls r))"

section \<open>Notions used to state the properties\<close>

text \<open>The pairs (source, chunk) in the order the pipeline meets them.\<close>

fun raw_chunks :: "document list \<Rightarrow> (ustring \<times> ustring) list" where
  "raw_chunks [] = []"
| "raw_chunks (doc # docs) =
     (case split_text (doc_text doc) 400 50 of
        None \<Rightarrow> []
      | Some chunks \<Rightarrow> map (Pair (doc_source doc)) chunks) @ raw_chunks docs"

text \<open>The five categories the prompt of \<open>enrich_chunk\<close> allows, and a score from 1 to 10.\<close>

definition valid_category :: "json \<Rightarrow> bool" where
  "valid_category v =
     (v = JStr (ustr ''Building Process'') \<or> v = JStr (ustr ''Costs & Finance'')
      \<or> v = JStr (ustr ''Why Metricon'') \<or> v = JStr (ustr ''FAQ'')
      \<or> v = JStr (ustr ''General''))"

definition valid_importance :: "json \<Rightarrow> bool" where
  "valid_importance v = (case v of JInt n \<Rightarrow> 1 \<le> n \<and> n \<le> 10 | _ \<Rightarrow> False)"

text \<open>
  \<open>built S k raws new\<close>: the entries \<open>new\<close> are what the pipeline appends for the
  pairs \<open>raws\<close> when the first of them gets the id \<open>k\<close>.
\<close>

definition built :: "'v services \<Rightarrow> nat \<Rightarrow> (ustring \<times> ustring) list \<Rightarrow> enriched_chunk list \<Rightarrow> bool" where
  "built S k raws new \<longleftrightarrow>
     length new = length raws \<and>
     (\<forall>i < length raws.
        new_chunk (k + i) (fst (raws ! i)) (snd (raws ! i))
          (enrich_chunk S (k + i) (snd (raws ! i)) (fst (raws ! i))) = Inr (new ! i))"


text \<open>What the catalog says the index holds: for every id the payload of the last entry
  with that id.\<close>

definition catalog_index :: "enriched_chunk list \<Rightarrow> nat \<rightharpoonup> json" where
  "catalog_index chunks = fold (\<lambda>c m. m(c_id c \<mapsto> chunk_payload c)) chunks Map.empty"

section \<open>Sample inputs\<close>

text \<open>A text of 400 tokens: \<open>"a "\<close> 400 times.\<close>

definition doc400 :: ustring where
  "doc400 = concat (replicate 400 [97, 32])"

text \<open>
  Two replies of the language model, as the bodies Bedrock sends, and \<open>json.loads\<close> on
  the texts that occur with them. The text of the first reply is \<open>{}\<close>, of the second
  \<open>{"category": "Other", "importance": 11}\<close>.
\<close>

definition envelope :: "ustring \<Rightarrow> json" where
  "envelope t =
     JObj [(ustr ''output'',
            JObj [(ustr ''message'',
                   JObj [(ustr ''content'', JArr [JObj [(ustr ''text'', JStr t)]])])])]"

definition body_empty :: ustring where
  \<open>body_empty = ustr ''{"output": {"message": {"content": [{"text": "{}"}]}}}''\<close>

definition text_other :: ustring where
  \<open>text_other = ustr ''{"category": "Other", "importance": 11}''\<close>

definition body_other :: ustring where
  \<open>body_other =
     ustr ''{"output": {"message": {"content": [{"text": "''
     @ concat (map (\<lambda>c. if c = 34 then [92, 34] else [c]) text_other)
     @ ustr ''"}]}}}''\<close>


definition sample_loads :: "ustring \<Rightarrow> exn + json" where
  "sample_loads s =
     (if s = body_empty then Inr (envelope (ustr ''{}''))
      else if s = body_other then Inr (envelope text_other)
      else if s = ustr ''{}'' then Inr (JObj [])
      else if s = text_other
        then Inr (JObj [(ustr ''category'', JStr (ustr ''Other'')), (ustr ''importance'', JInt 11)])
      else Inl JSONDecodeError)"

text \<open>
  Services whose language model fails and whose index finds nothing, and services whose
  language model sends a given body.
\<close>

definition model_down :: "nat services" where
  "model_down =
     \<lparr>invoke_model = (\<lambda>n prompt. Inl (ServiceError (ustr ''Read timed out''))),
      json_loads = sample_loads,
      encode = (\<lambda>n s. Inr (length s)),
      query_points = (\<lambda>v k. Inr []),
      write_catalog = (\<lambda>c. None),
      py_repr = (\<lambda>v. []),
      exn_str = (\<lambda>e. case e of ServiceError m \<Rightarrow> m | _ \<Rightarrow> [])\<rparr>"

definition model_replies :: "ustring \<Rightarrow> nat services" where
  "model_replies body = model_down\<lparr>invoke_model := (\<lambda>n prompt. Inr body)\<rparr>"


text \<open>A document of 30 tokens, which is one chunk of 59 characters.\<close>

definition sample_doc :: document where
  "sample_doc = \<lparr>doc_source = ustr ''guide.pdf'', doc_text = concat (replicate 30 [97, 32])\<rparr>"

definition sample_chunk :: ustring where
  "sample_chunk = py_join [32] (replicate 30 [97])"


text \<open>The catalog entries for the sample chunk: from the second reply, and from the
  fallback.\<close>

definition other_chunk :: "nat \<Rightarrow> enriched_chunk" where
  "other_chunk k =
     \<lparr>c_id = k, c_source = ustr ''guide.pdf'', c_text = sample_chunk,
      c_title = JStr [], c_summary = JStr [], c_keywords = JArr [],
      c_category = JStr (ustr ''Other''), c_importance = JInt 11\<rparr>"

definition default_chunk :: "nat \<Rightarrow> enriched_chunk" where
  "default_chunk k =
     \<lparr>c_id = k, c_source = ustr ''guide.pdf'', c_text = sample_chunk,
      c_title = JStr (ustr ''General Information''), c_summary = JStr (take 100 sample_chunk),
      c_keywords = JArr [],
      c_category = JStr (ustr ''General''), c_importance = JInt 5\<rparr>"


text \<open>The catalog entry for the sample chunk from the first reply.\<close>

definition blank_chunk :: "nat \<Rightarrow> enriched_chunk" where
  "blank_chunk k =
     \<lparr>c_id = k, c_source = ustr ''guide.pdf'', c_text = sample_chunk,
      c_title = JStr [], c_summary = JStr [], c_keywords = JArr [],
      c_category = JStr (ustr ''General''), c_importance = JInt 5\<rparr>"



definition other_embedder :: "nat services" where
  "other_embedder = model_down\<lparr>encode := (\<lambda>n s. Inr 0)\<rparr>"



section \<open>Properties of split_text\<close>

lemma split_from_clean:
  "\<forall>c \<in> set w. \<not> is_space c \<Longrightarrow> v \<in> set (split_from w s) \<Longrightarrow>
   v \<noteq> [] \<and> (\<forall>c \<in> set v. \<not> is_space c)"
proof (induction s arbitrary: w)
  case Nil
  then show ?case by (cases "w = []") simp_all
next
  case (Cons c cs)
  show ?case
  proof (cases "is_space c")
    case True
    have e: "\<forall>c \<in> set ([]::ustring). \<not> is_space c" by simp
    show ?thesis
    proof (cases "w = []")
      case True
      with \<open>is_space c\<close> Cons.prems(2) have "v \<in> set (split_from [] cs)" by simp
      from Cons.IH[OF e this] show ?thesis .
    next
      case False
      with \<open>is_space c\<close> Cons.prems(2) have "v = w \<or> v \<in> set (split_from [] cs)" by simp
      then show ?thesis
      proof
        assume "v = w"
        with False Cons.prems(1) show ?thesis by simp
      next
        assume "v \<in> set (split_from [] cs)"
        from Cons.IH[OF e this] show ?thesis .
      qed
    qed
  next
    case False
    with Cons.prems(1) have a: "\<forall>x \<in> set (w @ [c]). \<not> is_space x" by simp
    from False Cons.prems(2) have "v \<in> set (split_from (w @ [c]) cs)" by simp
    from Cons.IH[OF a this] show ?thesis .
  qed
qed

lemma py_split_clean: "v \<in> set (py_split s) \<Longrightarrow> v \<noteq> [] \<and> (\<forall>c \<in> set v. \<not> is_space c)"
  using split_from_clean[of "[]" v s] by (simp add: py_split_def)
lemma py_join_Cons: "py_join sep (w # ws) = (if ws = [] then w else w @ sep @ py_join sep ws)"
  by (cases ws) simp_all

lemma py_join_Nil_iff: "\<forall>w \<in> set ws. w \<noteq> [] \<Longrightarrow> py_join sep ws = [] \<longleftrightarrow> ws = []"
  by (cases ws) (auto simp: py_join_Cons)

lemma length_py_join: "\<forall>w \<in> set ws. w \<noteq> [] \<Longrightarrow> 2 * length ws \<le> Suc (length (py_join [32] ws))"
proof (induction ws)
  case Nil
  then show ?case by simp
next
  case (Cons w ws)
  then have "1 \<le> length w" by (cases w) auto
  with Cons show ?case by (auto simp: py_join_Cons)
qed

lemma hd_py_join: "ws \<noteq> [] \<Longrightarrow> hd ws \<noteq> [] \<Longrightarrow> hd (py_join sep ws) = hd (hd ws)"
  by (cases ws) (auto simp: py_join_Cons)

lemma last_py_join_aux:
  "ws \<noteq> [] \<Longrightarrow> last ws \<noteq> [] \<Longrightarrow>
   py_join sep ws \<noteq> [] \<and> last (py_join sep ws) = last (last ws)"
proof (induction ws)
  case Nil
  then show ?case by simp
next
  case (Cons w ws)
  show ?case
  proof (cases "ws = []")
    case True
    with Cons.prems show ?thesis by simp
  next
    case False
    with Cons have "py_join sep ws \<noteq> [] \<and> last (py_join sep ws) = last (last ws)" by simp
    with False show ?thesis by (simp add: py_join_Cons)
  qed
qed

lemma last_py_join: "ws \<noteq> [] \<Longrightarrow> last ws \<noteq> [] \<Longrightarrow> last (py_join sep ws) = last (last ws)"
  by (simp add: last_py_join_aux)

lemma py_strip_id: "s \<noteq> [] \<Longrightarrow> \<not> is_space (hd s) \<Longrightarrow> \<not> is_space (last s) \<Longrightarrow> py_strip s = s"
proof -
  assume a: "s \<noteq> []" "\<not> is_space (hd s)" "\<not> is_space (last s)"
  then have 1: "dropWhile is_space s = s" by (cases s) auto
  from a have "rev s \<noteq> []" "\<not> is_space (hd (rev s))" by (auto simp: hd_rev)
  then have 2: "dropWhile is_space (rev s) = rev s" by (cases "rev s") auto
  show ?thesis by (simp add: py_strip_def 1 2)
qed

lemma py_strip_join:
  assumes "\<forall>w \<in> set ws. w \<noteq> [] \<and> (\<forall>c \<in> set w. \<not> is_space c)"
  shows "py_strip (py_join [32] ws) = py_join [32] ws"
proof (cases "ws = []")
  case True
  then show ?thesis by (simp add: py_strip_def)
next
  case False
  with assms have h: "hd ws \<noteq> []" "last ws \<noteq> []" by auto
  have nh: "\<not> is_space (hd (hd ws))" using assms False h
    by (metis hd_in_set)
  have nl: "\<not> is_space (last (last ws))" using assms False h
    by (metis last_in_set)
  have ne: "py_join [32] ws \<noteq> []" using assms False by (simp add: py_join_Nil_iff)
  show ?thesis
    using ne nh nl False h by (intro py_strip_id) (simp_all add: hd_py_join last_py_join)
qed

lemma py_slice_all: "int (length xs) \<le> hi \<Longrightarrow> 0 \<le> lo \<Longrightarrow> py_slice xs lo hi = drop (nat lo) xs"
  by (auto simp: py_slice_def slice_bound_def Let_def min_def)


lemma split_loop_stop:
  "int (length ws) \<le> start \<Longrightarrow> split_loop ws c ov start chunks = Some chunks"
  by (subst split_loop.simps) simp

lemma split_loop_keep:
  "start < int (length ws) \<Longrightarrow> 50 < length (py_strip (py_join [32] (py_slice ws start (start + c)))) \<Longrightarrow>
   split_loop ws c ov start chunks =
   split_loop ws c ov (start + (c - ov)) (chunks @ [py_join [32] (py_slice ws start (start + c))])"
  by (subst split_loop.simps) (simp add: Let_def)

lemma split_loop_skip:
  "start < int (length ws) \<Longrightarrow> \<not> 50 < length (py_strip (py_join [32] (py_slice ws start (start + c)))) \<Longrightarrow>
   split_loop ws c ov start chunks = split_loop ws c ov (start + (c - ov)) chunks"
  by (subst split_loop.simps) (simp add: Let_def)

lemma split_loop_400:
  assumes cl: "\<forall>w \<in> set ws. w \<noteq> [] \<and> (\<forall>c \<in> set w. \<not> is_space c)"
    and len: "length ws = 400"
  shows "split_loop ws 400 50 0 [] = Some [py_join [32] ws, py_join [32] (drop 350 ws)]"
proof -
  have s1: "py_slice ws 0 (0 + 400) = ws"
    using len by (simp add: py_slice_all)
  have s2: "py_slice ws 350 (350 + 400) = drop 350 ws"
    using len by (simp add: py_slice_all)
  have cl2: "\<forall>w \<in> set (drop 350 ws). w \<noteq> [] \<and> (\<forall>c \<in> set w. \<not> is_space c)"
    using cl by (meson in_set_dropD)
  have ne1: "\<forall>w \<in> set ws. w \<noteq> []" using cl by blast
  have ne2: "\<forall>w \<in> set (drop 350 ws). w \<noteq> []" using cl2 by blast
  have l1: "50 < length (py_join [32] ws)"
    using length_py_join[OF ne1] len by linarith
  have "length (drop 350 ws) = 50" using len by simp
  then have l2: "50 < length (py_join [32] (drop 350 ws))"
    using length_py_join[OF ne2] by linarith
  have k1: "50 < length (py_strip (py_join [32] (py_slice ws 0 (0 + 400))))"
    unfolding s1 py_strip_join[OF cl] by (rule l1)
  have k2: "50 < length (py_strip (py_join [32] (py_slice ws 350 (350 + 400))))"
    unfolding s2 py_strip_join[OF cl2] by (rule l2)
  have a1: "(0::int) < int (length ws)" "(350::int) < int (length ws)" "int (length ws) \<le> 700"
    using len by simp_all
  have "split_loop ws 400 50 0 [] = split_loop ws 400 50 (0 + (400 - 50)) ([] @ [py_join [32] (py_slice ws 0 (0 + 400))])"
    by (rule split_loop_keep[OF a1(1) k1])
  also have "\<dots> = split_loop ws 400 50 350 [py_join [32] ws]"
    unfolding s1 by simp
  also have "\<dots> = split_loop ws 400 50 (350 + (400 - 50)) ([py_join [32] ws] @ [py_join [32] (py_slice ws 350 (350 + 400))])"
    by (rule split_loop_keep[OF a1(2) k2])
  also have "\<dots> = split_loop ws 400 50 700 [py_join [32] ws, py_join [32] (drop 350 ws)]"
    unfolding s2 by simp
  also have "\<dots> = Some [py_join [32] ws, py_join [32] (drop 350 ws)]"
    by (rule split_loop_stop[OF a1(3)])
  finally show ?thesis .
qed


lemma split_loop_terminates:
  assumes "overlap < chunk_size"
  shows "\<exists>r. split_loop ws chunk_size overlap start chunks = Some r"
proof (induction "nat (int (length ws) - start)" arbitrary: start chunks rule: less_induct)
  case less
  show ?case
  proof (cases "start < int (length ws)")
    case False
    then show ?thesis by (simp add: split_loop_stop)
  next
    case True
    have "nat (int (length ws) - (start + (chunk_size - overlap))) < nat (int (length ws) - start)"
      using True assms by linarith
    from less[OF this] show ?thesis
      using True by (subst split_loop.simps) (simp add: Let_def)
  qed
qed

lemma split_loop_no_return:
  assumes ret: "split_loop ws chunk_size overlap start chunks = Some r"
  shows "\<not> (chunk_size \<le> overlap \<and> start < int (length ws))"
proof (rule split_loop.raw_induct
    [where P = "\<lambda>ws c ov st ch r. \<not> (c \<le> ov \<and> st < int (length ws))", OF _ ret])
  fix loop :: "ustring list \<Rightarrow> int \<Rightarrow> int \<Rightarrow> int \<Rightarrow> ustring list \<Rightarrow> ustring list option"
  fix ws c ov st ch r
  assume IH: "\<And>ws c ov st ch r. loop ws c ov st ch = Some r \<Longrightarrow> \<not> (c \<le> ov \<and> st < int (length ws))"
  assume step: "(if st < int (length ws)
      then let end = st + c;
               chunk = py_join [32] (py_slice ws st end)
           in Let (if 50 < length (py_strip chunk) then ch @ [chunk]
                   else ch)
               (loop ws c ov
                 (st + (c - ov)))
      else Some ch) = Some r"
  show "\<not> (c \<le> ov \<and> st < int (length ws))"
  proof
    assume a: "c \<le> ov \<and> st < int (length ws)"
    then have b: "c \<le> ov \<and> st + (c - ov) < int (length ws)"
      by linarith
    from a step obtain ch' where "loop ws c ov (st + (c - ov)) ch' = Some r"
      by (auto simp: Let_def split: if_splits)
    from IH[OF this] b show False by blast
  qed
qed

lemma split_loop_diverges:
  "chunk_size \<le> overlap \<Longrightarrow> start < int (length ws) \<Longrightarrow>
   split_loop ws chunk_size overlap start chunks = None"
  using split_loop_no_return[of ws chunk_size overlap start chunks] by (cases "split_loop ws chunk_size overlap start chunks") auto

lemma split_from_replicate: "split_from [] (concat (replicate n [97, 32])) = replicate n [97]"
  by (induction n) (simp_all add: is_space_def)

lemma py_split_doc400: "py_split doc400 = replicate 400 [97]"
  by (simp add: doc400_def py_split_def split_from_replicate)


text \<open>
  C5 (amended). \<open>split_text\<close> has no branch that raises: nothing compares
  \<open>chunk_size\<close> with \<open>overlap\<close>. When \<open>chunk_size > overlap\<close> the loop ends and the
  call returns a list that its three arguments determine. When
  \<open>chunk_size \<le> overlap\<close> the call returns the empty list if the text has no token
  and never returns otherwise.
\<close>

theorem split_text_returns:
  "(overlap < chunk_size \<longrightarrow> (\<exists>chunks. split_text text chunk_size overlap = Some chunks)) \<and>
   (chunk_size \<le> overlap \<longrightarrow>
      split_text text chunk_size overlap = (if py_split text = [] then Some [] else None))"
proof (intro conjI impI)
  assume "overlap < chunk_size"
  then show "\<exists>chunks. split_text text chunk_size overlap = Some chunks"
    unfolding split_text_def by (rule split_loop_terminates)
next
  assume le: "chunk_size \<le> overlap"
  show "split_text text chunk_size overlap = (if py_split text = [] then Some [] else None)"
  proof (cases "py_split text = []")
    case True
    then show ?thesis by (simp add: split_text_def split_loop_stop)
  next
    case False
    then have "0 < int (length (py_split text))" by simp
    from split_loop_diverges[OF le this] False show ?thesis by (simp add: split_text_def)
  qed
qed

text \<open>The theorem at \<open>"a b"\<close> (both cases) and at the empty text.\<close>

theorem split_text_returns_witness:
  "(50::int) < 400 \<and> (\<exists>chunks. split_text (ustr ''a b'') 400 50 = Some chunks) \<and>
   (50::int) \<le> 50 \<and> split_text (ustr ''a b'') 50 50 = None \<and> split_text [] 50 50 = Some []"
proof -
  have 1: "py_split (ustr ''a b'') \<noteq> []" by code_simp
  have 2: "py_split [] = []" by code_simp
  show ?thesis
    using split_text_returns[of 50 400 "ustr ''a b''"] split_text_returns[of 50 50 "ustr ''a b''"]
      split_text_returns[of 50 50 "[]"] 1 2 by simp
qed

text \<open>
  C5 as stated fails: with \<open>chunk_size = overlap = 50\<close> the call on the empty text
  returns the empty list, and the call on \<open>"a"\<close> never returns; neither raises.
\<close>

theorem split_text_no_configuration_error:
  "split_text [] 50 50 = Some [] \<and> split_text (ustr ''a'') 50 50 = None"
proof -
  have 1: "py_split [] = []" by code_simp
  have 2: "(0::int) < int (length (py_split (ustr ''a'')))" by code_simp
  have "(50::int) \<le> 50" by simp
  from split_loop_diverges[OF this 2] 1 show ?thesis
    by (simp add: split_text_def split_loop_stop)
qed

text \<open>
  C6 (amended). With the defaults (\<open>chunk_size = 400\<close>, \<open>overlap = 50\<close>), a text of exactly
  400 tokens gives exactly two chunks: the 400 tokens joined by single spaces, then the
  window that starts at token 350, which is the last 50 tokens joined by single spaces.
\<close>

theorem split_text_400_tokens:
  assumes "length (py_split text) = 400"
  shows "split_text text 400 50 =
    Some [py_join [32] (py_split text), py_join [32] (drop 350 (py_split text))]"
  unfolding split_text_def
  by (rule split_loop_400[OF _ assms]) (use py_split_clean in blast)


text \<open>The theorem at the text of 400 tokens \<open>"a"\<close>.\<close>

theorem split_text_400_tokens_witness:
  "length (py_split doc400) = 400 \<and> split_text doc400 400 50 =
    Some [py_join [32] (py_split doc400), py_join [32] (drop 350 (py_split doc400))]"
proof -
  have l: "length (py_split doc400) = 400" by (simp add: py_split_doc400)
  from split_text_400_tokens[OF l] l show ?thesis by simp
qed

text \<open>
  C6 as stated fails: the text of 400 tokens \<open>"a"\<close> gives two chunks, of 400 and of
  50 tokens.
\<close>

theorem split_text_400_tokens_two_chunks:
  "length (py_split doc400) = 400 \<and>
   split_text doc400 400 50 =
     Some [py_join [32] (replicate 400 [97]), py_join [32] (replicate 50 [97])]"
proof -
  have l: "length (replicate (400::nat) [97::nat]) = 400" by simp
  have c: "\<forall>w \<in> set (replicate (400::nat) [97::nat]). w \<noteq> [] \<and> (\<forall>c \<in> set w. \<not> is_space c)"
    by (simp add: is_space_def)
  from split_loop_400[OF c l] show ?thesis
    by (simp add: split_text_def py_split_doc400)
qed

section \<open>Properties of enrich_chunk and of the pipeline\<close>

lemma and_then_Inl_iff:
  "and_then m f = Inl e \<longleftrightarrow> m = Inl e \<or> (\<exists>x. m = Inr x \<and> f x = Inl e)"
  by (cases m) (simp_all add: and_then_def)

lemma and_then_Inr_iff:
  "and_then m f = Inr y \<longleftrightarrow> (\<exists>x. m = Inr x \<and> f x = Inr y)"
  by (cases m) (simp_all add: and_then_def)

lemma enrich_try_Inl_iff:
  "enrich_try S n chunk_text = Inl e \<longleftrightarrow>
     invoke_model S n (enrich_prompt chunk_text) = Inl e
     \<or> (\<exists>body. invoke_model S n (enrich_prompt chunk_text) = Inr body \<and>
          (json_loads S body = Inl e
           \<or> (\<exists>output. json_loads S body = Inr output \<and>
                (message_text output = Inl e
                 \<or> (\<exists>raw. message_text output = Inr raw \<and>
                      (sanitize raw = Inl e
                       \<or> (\<exists>raw'. sanitize raw = Inr raw' \<and> json_loads S raw' = Inl e)))))))"
  unfolding enrich_try_def and_then_Inl_iff ..

lemma enrich_try_Inr_iff:
  "enrich_try S n chunk_text = Inr v \<longleftrightarrow>
     (\<exists>body output raw raw'. invoke_model S n (enrich_prompt chunk_text) = Inr body \<and>
        json_loads S body = Inr output \<and> message_text output = Inr raw \<and>
        sanitize raw = Inr raw' \<and> json_loads S raw' = Inr v)"
  unfolding enrich_try_def and_then_Inr_iff by blast

text \<open>
  C1 (amended). The default metadata is returned exactly when an exception leaves the
  \<open>try\<close> block: the call of the model raises (a timeout included), or the response body
  is not JSON, or it has no \<open>output.message.content[0].text\<close>, or that text is not a
  string, or the sanitized text is not JSON. In each of these cases \<open>enrich_chunk\<close>
  returns \<open>{title: "General Information", summary: chunk_text[:100], keywords: [],
  category: "General", importance: 5}\<close> and raises nothing. When the sanitized text
  parses as a JSON object, \<open>enrich_chunk\<close> returns that object as it is, with
  whatever fields it has.
\<close>

theorem enrich_chunk_fallback:
  "(invoke_model S n (enrich_prompt chunk_text) = Inl e
     \<or> (\<exists>body. invoke_model S n (enrich_prompt chunk_text) = Inr body \<and>
          (json_loads S body = Inl e
           \<or> (\<exists>output. json_loads S body = Inr output \<and>
                (message_text output = Inl e
                 \<or> (\<exists>raw. message_text output = Inr raw \<and>
                      (sanitize raw = Inl e
                       \<or> (\<exists>raw'. sanitize raw = Inr raw' \<and> json_loads S raw' = Inl e)))))))
    \<longrightarrow> enrich_chunk S n chunk_text source = default_metadata chunk_text) \<and>
   (invoke_model S n (enrich_prompt chunk_text) = Inr body \<and>
      json_loads S body = Inr output \<and> message_text output = Inr raw \<and>
      sanitize raw = Inr raw' \<and> json_loads S raw' = Inr (JObj kvs)
    \<longrightarrow> enrich_chunk S n chunk_text source = JObj kvs)"
proof (intro conjI impI)
  assume "invoke_model S n (enrich_prompt chunk_text) = Inl e
     \<or> (\<exists>body. invoke_model S n (enrich_prompt chunk_text) = Inr body \<and>
          (json_loads S body = Inl e
           \<or> (\<exists>output. json_loads S body = Inr output \<and>
                (message_text output = Inl e
                 \<or> (\<exists>raw. message_text output = Inr raw \<and>
                      (sanitize raw = Inl e
                       \<or> (\<exists>raw'. sanitize raw = Inr raw' \<and> json_loads S raw' = Inl e)))))))"
  then have "enrich_try S n chunk_text = Inl e"
    by (simp only: enrich_try_Inl_iff)
  then show "enrich_chunk S n chunk_text source = default_metadata chunk_text"
    by (simp add: enrich_chunk_def)
next
  assume "invoke_model S n (enrich_prompt chunk_text) = Inr body \<and>
      json_loads S body = Inr output \<and> message_text output = Inr raw \<and>
      sanitize raw = Inr raw' \<and> json_loads S raw' = Inr (JObj kvs)"
  then have "enrich_try S n chunk_text = Inr (JObj kvs)"
    unfolding enrich_try_Inr_iff by blast
  then show "enrich_chunk S n chunk_text source = JObj kvs"
    by (simp add: enrich_chunk_def)
qed

lemma model_down_invoke:
  "invoke_model model_down n p = Inl (ServiceError (ustr ''Read timed out''))"
  by (simp add: model_down_def)

lemma model_replies_simps:
  "invoke_model (model_replies b) n p = Inr b"
  "json_loads (model_replies b) = sample_loads"
  by (simp_all add: model_replies_def model_down_def)

lemma sample_loads_body_empty: "sample_loads body_empty = Inr (envelope (ustr ''{}''))"
  by (simp add: sample_loads_def)

lemma message_text_envelope: "message_text (envelope t) = Inr (JStr t)"
  by (simp add: message_text_def envelope_def and_then_def ustr_def)

lemma sanitize_empty: "sanitize (JStr (ustr ''{}'')) = Inr (ustr ''{}'')"
  by code_simp

lemma sample_loads_empty: "sample_loads (ustr ''{}'') = Inr (JObj [])"
  by code_simp

text \<open>The theorem where the call times out, and where the model replies \<open>{}\<close>.\<close>

theorem enrich_chunk_fallback_witness:
  "invoke_model model_down 0 (enrich_prompt sample_chunk) = Inl (ServiceError (ustr ''Read timed out''))
   \<and> enrich_chunk model_down 0 sample_chunk (ustr ''guide.pdf'') = default_metadata sample_chunk
   \<and> invoke_model (model_replies body_empty) 0 (enrich_prompt sample_chunk) = Inr body_empty
   \<and> json_loads (model_replies body_empty) body_empty = Inr (envelope (ustr ''{}''))
   \<and> message_text (envelope (ustr ''{}'')) = Inr (JStr (ustr ''{}''))
   \<and> sanitize (JStr (ustr ''{}'')) = Inr (ustr ''{}'')
   \<and> json_loads (model_replies body_empty) (ustr ''{}'') = Inr (JObj [])
   \<and> enrich_chunk (model_replies body_empty) 0 sample_chunk (ustr ''guide.pdf'') = JObj []"
  using enrich_chunk_fallback[of model_down 0 sample_chunk "ServiceError (ustr ''Read timed out'')"
      "ustr ''guide.pdf''" body_empty "envelope (ustr ''{}'')" "JStr (ustr ''{}'')" "ustr ''{}''" "[]"]
    enrich_chunk_fallback[of "model_replies body_empty" 0 sample_chunk "ServiceError (ustr ''Read timed out'')"
      "ustr ''guide.pdf''" body_empty "envelope (ustr ''{}'')" "JStr (ustr ''{}'')" "ustr ''{}''" "[]"]
  by (simp add: model_down_invoke model_replies_simps sample_loads_body_empty message_text_envelope
      sanitize_empty sample_loads_empty del: sanitize.simps)

text \<open>
  C1 as stated fails: the reply \<open>{}\<close> has none of the five fields, so it is not the
  expected structure, and \<open>enrich_chunk\<close> returns the empty object, not the default
  metadata.
\<close>

theorem enrich_chunk_returns_unexpected_structure:
  "enrich_chunk (model_replies body_empty) 0 sample_chunk (ustr ''guide.pdf'') = JObj [] \<and>
   JObj [] \<noteq> default_metadata sample_chunk"
proof -
  have "enrich_try (model_replies body_empty) 0 sample_chunk = Inr (JObj [])"
    unfolding enrich_try_Inr_iff
    by (simp add: model_replies_simps sample_loads_body_empty message_text_envelope
      sanitize_empty sample_loads_empty del: sanitize.simps)
  then show ?thesis by (simp add: enrich_chunk_def default_metadata_def)
qed

lemma new_chunk_Inr:
  "new_chunk k src ch e = Inr c \<Longrightarrow>
   c_id c = k \<and> c_source c = src \<and> c_text c = ch \<and>
   (\<exists>kvs. e = JObj kvs \<and>
      c_title c = dict_get kvs (ustr ''title'') (JStr []) \<and>
      c_summary c = dict_get kvs (ustr ''summary'') (JStr []) \<and>
      c_keywords c = dict_get kvs (ustr ''keywords'') (JArr []) \<and>
      c_category c = dict_get kvs (ustr ''category'') (JStr (ustr ''General'')) \<and>
      c_importance c = dict_get kvs (ustr ''importance'') (JInt 5))"
  by (cases e) auto

lemma enrich_all_result:
  "enrich_all S src chunks all k = Inr (all', k') \<Longrightarrow>
   k' = k + length chunks \<and>
   (\<exists>new. all' = all @ new \<and> length new = length chunks \<and>
      (\<forall>i < length chunks.
         new_chunk (k + i) src (chunks ! i) (enrich_chunk S (k + i) (chunks ! i) src)
           = Inr (new ! i)))"
proof (induction chunks arbitrary: all k)
  case Nil
  then show ?case by simp
next
  case (Cons chunk rest)
  from Cons.prems obtain c where
    c: "new_chunk k src chunk (enrich_chunk S k chunk src) = Inr c"
    and r: "enrich_all S src rest (all @ [c]) (k + 1) = Inr (all', k')"
    by (auto simp: Let_def split: sum.splits)
  from Cons.IH[OF r] obtain new where
    k': "k' = k + 1 + length rest" and new: "all' = (all @ [c]) @ new" "length new = length rest"
    and each: "\<forall>i < length rest.
         new_chunk (k + 1 + i) src (rest ! i) (enrich_chunk S (k + 1 + i) (rest ! i) src)
           = Inr (new ! i)"
    by blast
  have "\<forall>i < length (chunk # rest).
         new_chunk (k + i) src ((chunk # rest) ! i) (enrich_chunk S (k + i) ((chunk # rest) ! i) src)
           = Inr ((c # new) ! i)"
  proof (intro allI impI)
    fix i assume "i < length (chunk # rest)"
    then show "new_chunk (k + i) src ((chunk # rest) ! i) (enrich_chunk S (k + i) ((chunk # rest) ! i) src)
           = Inr ((c # new) ! i)"
      using c each by (cases i) simp_all
  qed
  with k' new show ?case
    by (intro conjI exI[of _ "c # new"]) simp_all
qed

lemma built_append:
  assumes "built S k r1 n1" "built S (k + length r1) r2 n2"
  shows "built S k (r1 @ r2) (n1 @ n2)"
  unfolding built_def
proof (intro conjI allI impI)
  show "length (n1 @ n2) = length (r1 @ r2)" using assms by (simp add: built_def)
next
  fix i assume i: "i < length (r1 @ r2)"
  have l: "length n1 = length r1" using assms by (simp add: built_def)
  show "new_chunk (k + i) (fst ((r1 @ r2) ! i)) (snd ((r1 @ r2) ! i))
          (enrich_chunk S (k + i) (snd ((r1 @ r2) ! i)) (fst ((r1 @ r2) ! i))) = Inr ((n1 @ n2) ! i)"
  proof (cases "i < length r1")
    case True
    with assms(1) l show ?thesis by (simp add: built_def nth_append)
  next
    case False
    then have j: "i - length r1 < length r2" using i by simp
    have e: "k + length r1 + (i - length r1) = k + i" using False by simp
    from assms(2) j have "new_chunk (k + length r1 + (i - length r1)) (fst (r2 ! (i - length r1))) (snd (r2 ! (i - length r1)))
          (enrich_chunk S (k + length r1 + (i - length r1)) (snd (r2 ! (i - length r1))) (fst (r2 ! (i - length r1)))) = Inr (n2 ! (i - length r1))"
      unfolding built_def by blast
    with False l show ?thesis by (simp add: nth_append e)
  qed
qed

lemma enrich_all_built:
  assumes "enrich_all S src chunks all k = Inr (all', k')"
  shows "k' = k + length chunks \<and> (\<exists>new. all' = all @ new \<and> built S k (map (Pair src) chunks) new)"
proof -
  from enrich_all_result[OF assms] obtain new where
    "k' = k + length chunks" "all' = all @ new" "length new = length chunks"
    "\<forall>i < length chunks.
         new_chunk (k + i) src (chunks ! i) (enrich_chunk S (k + i) (chunks ! i) src)
           = Inr (new ! i)" by blast
  then show ?thesis by (auto simp: built_def)
qed

lemma split_text_default: "\<exists>chunks. split_text text 400 50 = Some chunks"
  unfolding split_text_def by (rule split_loop_terminates) simp

lemma process_documents_returns: "process_documents S docs all k \<noteq> None"
proof (induction docs arbitrary: all k)
  case Nil
  then show ?case by simp
next
  case (Cons doc docs)
  obtain chunks where s: "split_text (doc_text doc) 400 50 = Some chunks"
    using split_text_default by blast
  show ?case
  proof (cases "enrich_all S (doc_source doc) chunks all k")
    case (Inl e)
    with s show ?thesis by simp
  next
    case (Inr p)
    with s Cons.IH show ?thesis by (cases p) simp
  qed
qed

lemma process_documents_result:
  "process_documents S docs all k = Some (Inr (all', k')) \<Longrightarrow>
   k' = k + length (raw_chunks docs) \<and>
   (\<exists>new. all' = all @ new \<and> built S k (raw_chunks docs) new)"
proof (induction docs arbitrary: all k)
  case Nil
  then show ?case by (simp add: built_def)
next
  case (Cons doc docs)
  obtain chunks where s: "split_text (doc_text doc) 400 50 = Some chunks"
    using split_text_default by blast
  from Cons.prems s obtain all1 k1 where
    e: "enrich_all S (doc_source doc) chunks all k = Inr (all1, k1)"
    and p: "process_documents S docs all1 k1 = Some (Inr (all', k'))"
    by (auto split: sum.splits)
  from enrich_all_built[OF e] obtain n1 where
    k1: "k1 = k + length chunks" and n1: "all1 = all @ n1"
    "built S k (map (Pair (doc_source doc)) chunks) n1" by blast
  from Cons.IH[OF p] obtain n2 where
    k': "k' = k1 + length (raw_chunks docs)" and n2: "all' = all1 @ n2"
    "built S k1 (raw_chunks docs) n2" by blast
  have "built S k (map (Pair (doc_source doc)) chunks @ raw_chunks docs) (n1 @ n2)"
    using n1(2) n2(2) k1 by (intro built_append) simp_all
  with k' k1 n1(1) n2(1) s show ?case by auto
qed

lemma pipeline_result:
  assumes "agentic_chunking_pipeline S docs = Some (Inr cs)"
  shows "built S 0 (raw_chunks docs) cs"
proof -
  from assms obtain k where "process_documents S docs [] 0 = Some (Inr (cs, k))"
    by (auto simp: agentic_chunking_pipeline_def split: option.splits sum.splits)
  from process_documents_result[OF this] show ?thesis by simp
qed

lemma pipeline_returns: "agentic_chunking_pipeline S docs \<noteq> None"
  using process_documents_returns[of S docs "[]" 0]
  by (auto simp: agentic_chunking_pipeline_def split: option.splits sum.splits)

lemma built_nth:
  assumes "built S k raws new" "i < length new"
  shows "new_chunk (k + i) (fst (raws ! i)) (snd (raws ! i))
          (enrich_chunk S (k + i) (snd (raws ! i)) (fst (raws ! i))) = Inr (new ! i)"
  using assms unfolding built_def by simp

text \<open>
  C4. When the pipeline returns a catalog, the ids of its entries, in order, are
  \<open>0, 1, ..., N - 1\<close>, where \<open>N\<close> is the number of raw chunks of all documents
  together, and the entries are the raw chunks in processing order: the counter runs on
  from one document to the next.
\<close>

theorem chunk_ids_contiguous:
  assumes "agentic_chunking_pipeline S docs = Some (Inr cs)"
  shows "map c_id cs = [0 ..< length (raw_chunks docs)] \<and>
         map (\<lambda>c. (c_source c, c_text c)) cs = raw_chunks docs"
proof -
  have b: "built S 0 (raw_chunks docs) cs" by (rule pipeline_result[OF assms])
  then have l: "length cs = length (raw_chunks docs)" by (simp add: built_def)
  have each: "c_id (cs ! i) = i \<and> (c_source (cs ! i), c_text (cs ! i)) = raw_chunks docs ! i"
    if "i < length cs" for i
    using new_chunk_Inr[OF built_nth[OF b that]] by simp
  have 1: "map c_id cs = [0 ..< length (raw_chunks docs)]"
    using l each by (intro nth_equalityI) simp_all
  have 2: "map (\<lambda>c. (c_source c, c_text c)) cs = raw_chunks docs"
    using l each by (intro nth_equalityI) simp_all
  from 1 2 show ?thesis ..
qed

lemma split_loop_short:
  assumes cl: "\<forall>w \<in> set ws. w \<noteq> [] \<and> (\<forall>c \<in> set w. \<not> is_space c)"
    and len: "0 < length ws" "length ws \<le> 350"
    and long: "50 < length (py_join [32] ws)"
  shows "split_loop ws 400 50 0 [] = Some [py_join [32] ws]"
proof -
  have s1: "py_slice ws 0 (0 + 400) = ws"
    using len by (simp add: py_slice_all)
  have k1: "50 < length (py_strip (py_join [32] (py_slice ws 0 (0 + 400))))"
    unfolding s1 py_strip_join[OF cl] by (rule long)
  have a1: "(0::int) < int (length ws)" "int (length ws) \<le> 350"
    using len by simp_all
  have "split_loop ws 400 50 0 [] =
      split_loop ws 400 50 (0 + (400 - 50)) ([] @ [py_join [32] (py_slice ws 0 (0 + 400))])"
    by (rule split_loop_keep[OF a1(1) k1])
  also have "\<dots> = split_loop ws 400 50 350 [py_join [32] ws]"
    unfolding s1 by simp
  also have "\<dots> = Some [py_join [32] ws]"
    by (rule split_loop_stop[OF a1(2)])
  finally show ?thesis .
qed

lemma split_sample_doc: "split_text (doc_text sample_doc) 400 50 = Some [sample_chunk]"
proof -
  have p: "py_split (doc_text sample_doc) = replicate 30 [97]"
    by (simp add: sample_doc_def py_split_def split_from_replicate)
  have c: "\<forall>w \<in> set (replicate (30::nat) [97::nat]). w \<noteq> [] \<and> (\<forall>c \<in> set w. \<not> is_space c)"
    by (simp add: is_space_def)
  have "\<forall>w \<in> set (replicate (30::nat) [97::nat]). w \<noteq> []" by simp
  from length_py_join[OF this] have l: "50 < length (py_join [32] (replicate (30::nat) [97::nat]))"
    by simp
  from split_loop_short[OF c _ _ l] show ?thesis
    by (simp add: split_text_def p sample_chunk_def)
qed

lemma raw_chunks_sample: "raw_chunks [sample_doc, sample_doc] =
    [(ustr ''guide.pdf'', sample_chunk), (ustr ''guide.pdf'', sample_chunk)]"
  by (simp add: split_sample_doc) (simp add: sample_doc_def)

lemma enrich_other: "enrich_try (model_replies body_other) n chunk =
   Inr (JObj [(ustr ''category'', JStr (ustr ''Other'')), (ustr ''importance'', JInt 11)])"
proof -
  have 1: "sample_loads body_other = Inr (envelope text_other)" by code_simp
  have 2: "sanitize (JStr text_other) = Inr text_other" by code_simp
  have 3: "sample_loads text_other =
    Inr (JObj [(ustr ''category'', JStr (ustr ''Other'')), (ustr ''importance'', JInt 11)])"
    by code_simp
  show ?thesis
    unfolding enrich_try_Inr_iff
    by (simp add: model_replies_simps 1 2 3 message_text_envelope del: sanitize.simps)
qed

lemma enrich_down: "enrich_try model_down n chunk = Inl (ServiceError (ustr ''Read timed out''))"
  by (simp add: enrich_try_def and_then_def model_down_def)

lemma new_chunk_other:
  "new_chunk k (ustr ''guide.pdf'') sample_chunk
     (JObj [(ustr ''category'', JStr (ustr ''Other'')), (ustr ''importance'', JInt 11)])
   = Inr (other_chunk k)"
  by (simp add: other_chunk_def dict_get_def ustr_def)

lemma new_chunk_default:
  "new_chunk k (ustr ''guide.pdf'') sample_chunk (default_metadata sample_chunk)
   = Inr (default_chunk k)"
  by (simp add: default_chunk_def default_metadata_def dict_get_def ustr_def)

lemma pipeline_other:
  "agentic_chunking_pipeline (model_replies body_other) [sample_doc, sample_doc] =
     Some (Inr [other_chunk 0, other_chunk 1])"
proof -
  have w: "write_catalog (model_replies body_other) = (\<lambda>c. None)"
    by (simp add: model_replies_def model_down_def)
  have s: "doc_source sample_doc = ustr ''guide.pdf''" by (simp add: sample_doc_def)
  show ?thesis
    by (simp add: agentic_chunking_pipeline_def split_sample_doc enrich_chunk_def enrich_other
        new_chunk_other w s del: new_chunk.simps)
qed

lemma pipeline_down:
  "agentic_chunking_pipeline model_down [sample_doc] = Some (Inr [default_chunk 0])"
proof -
  have w: "write_catalog model_down = (\<lambda>c. None)"
    by (simp add: model_down_def)
  have s: "doc_source sample_doc = ustr ''guide.pdf''" by (simp add: sample_doc_def)
  show ?thesis
    by (simp add: agentic_chunking_pipeline_def split_sample_doc enrich_chunk_def enrich_down
        new_chunk_default w s del: new_chunk.simps)
qed

text \<open>The theorem at two copies of the sample document.\<close>

theorem chunk_ids_contiguous_witness:
  "agentic_chunking_pipeline (model_replies body_other) [sample_doc, sample_doc] =
     Some (Inr [other_chunk 0, other_chunk 1]) \<and>
   length (raw_chunks [sample_doc, sample_doc]) = 2 \<and>
   map c_id [other_chunk 0, other_chunk 1] = [0 ..< 2]"
proof -
  have r: "length (raw_chunks [sample_doc, sample_doc]) = 2"
    by (simp add: raw_chunks_sample del: raw_chunks.simps)
  from chunk_ids_contiguous[OF pipeline_other] have "map c_id [other_chunk 0, other_chunk 1] = [0 ..< 2]"
    unfolding r by (rule conjunct1)
  with pipeline_other r show ?thesis by (intro conjI)
qed

text \<open>
  C7 (amended). The category and the importance of a catalog entry are what
  \<open>enriched.get\<close> gave: the value the enrichment has for the key, whatever JSON value
  that is, else \<open>"General"\<close> and \<open>5\<close>. They are one of the five categories and an
  integer from 1 to 10 when the key is absent or the enrichment fell back to the
  default; nothing checks them otherwise.
\<close>

theorem category_importance_as_enriched:
  assumes "agentic_chunking_pipeline S docs = Some (Inr cs)" and "i < length cs"
  shows "\<exists>kvs. enrich_chunk S i (c_text (cs ! i)) (c_source (cs ! i)) = JObj kvs \<and>
     c_category (cs ! i) = dict_get kvs (ustr ''category'') (JStr (ustr ''General'')) \<and>
     c_importance (cs ! i) = dict_get kvs (ustr ''importance'') (JInt 5) \<and>
     (map_of kvs (ustr ''category'') = None \<longrightarrow> valid_category (c_category (cs ! i))) \<and>
     (map_of kvs (ustr ''importance'') = None \<longrightarrow> valid_importance (c_importance (cs ! i))) \<and>
     ((\<exists>e. enrich_try S i (c_text (cs ! i)) = Inl e) \<longrightarrow>
        valid_category (c_category (cs ! i)) \<and> valid_importance (c_importance (cs ! i)))"
proof -
  have b: "built S 0 (raw_chunks docs) cs" by (rule pipeline_result[OF assms(1)])
  let ?r = "raw_chunks docs ! i"
  from new_chunk_Inr[OF built_nth[OF b assms(2)]] obtain kvs where
    st: "c_source (cs ! i) = fst ?r" "c_text (cs ! i) = snd ?r"
    and e: "enrich_chunk S (0 + i) (snd ?r) (fst ?r) = JObj kvs"
    and cat: "c_category (cs ! i) = dict_get kvs (ustr ''category'') (JStr (ustr ''General''))"
    and imp: "c_importance (cs ! i) = dict_get kvs (ustr ''importance'') (JInt 5)"
    by blast
  have e': "enrich_chunk S i (c_text (cs ! i)) (c_source (cs ! i)) = JObj kvs"
    using e st by simp
  have g: "valid_category (JStr (ustr ''General''))" by (simp add: valid_category_def)
  have f: "valid_importance (JInt 5)" by (simp add: valid_importance_def)
  have 1: "map_of kvs (ustr ''category'') = None \<longrightarrow> valid_category (c_category (cs ! i))"
    using cat g by (simp add: dict_get_def)
  have 2: "map_of kvs (ustr ''importance'') = None \<longrightarrow> valid_importance (c_importance (cs ! i))"
    using imp f by (simp add: dict_get_def)
  have 3: "(\<exists>e. enrich_try S i (c_text (cs ! i)) = Inl e) \<longrightarrow>
        valid_category (c_category (cs ! i)) \<and> valid_importance (c_importance (cs ! i))"
  proof
    assume "\<exists>e. enrich_try S i (c_text (cs ! i)) = Inl e"
    then have "enrich_chunk S i (c_text (cs ! i)) (c_source (cs ! i)) = default_metadata (c_text (cs ! i))"
      by (auto simp: enrich_chunk_def)
    with e' have "kvs = [(ustr ''title'', JStr (ustr ''General Information'')),
           (ustr ''summary'', JStr (take 100 (c_text (cs ! i)))),
           (ustr ''keywords'', JArr []),
           (ustr ''category'', JStr (ustr ''General'')),
           (ustr ''importance'', JInt 5)]"
      by (simp add: default_metadata_def)
    then have "dict_get kvs (ustr ''category'') (JStr (ustr ''General'')) = JStr (ustr ''General'')"
      "dict_get kvs (ustr ''importance'') (JInt 5) = JInt 5"
      by (simp_all add: dict_get_def ustr_def)
    with cat imp g f show "valid_category (c_category (cs ! i)) \<and> valid_importance (c_importance (cs ! i))"
      by simp
  qed
  show ?thesis
    by (intro exI[of _ kvs] conjI) (rule e' cat imp 1 2 3)+
qed

lemma pipeline_one_other:
  "agentic_chunking_pipeline (model_replies body_other) [sample_doc] = Some (Inr [other_chunk 0])"
proof -
  have w: "write_catalog (model_replies body_other) = (\<lambda>c. None)"
    by (simp add: model_replies_def model_down_def)
  have s: "doc_source sample_doc = ustr ''guide.pdf''" by (simp add: sample_doc_def)
  show ?thesis
    by (simp add: agentic_chunking_pipeline_def split_sample_doc enrich_chunk_def enrich_other
        new_chunk_other w s del: new_chunk.simps)
qed

lemma enrich_empty: "enrich_try (model_replies body_empty) n chunk = Inr (JObj [])"
  unfolding enrich_try_Inr_iff
  by (simp add: model_replies_simps sample_loads_body_empty sanitize_empty sample_loads_empty
      message_text_envelope del: sanitize.simps)

lemma new_chunk_blank:
  "new_chunk k (ustr ''guide.pdf'') sample_chunk (JObj []) = Inr (blank_chunk k)"
  by (simp add: blank_chunk_def dict_get_def)

lemma pipeline_empty:
  "agentic_chunking_pipeline (model_replies body_empty) [sample_doc] = Some (Inr [blank_chunk 0])"
proof -
  have w: "write_catalog (model_replies body_empty) = (\<lambda>c. None)"
    by (simp add: model_replies_def model_down_def)
  have s: "doc_source sample_doc = ustr ''guide.pdf''" by (simp add: sample_doc_def)
  show ?thesis
    by (simp add: agentic_chunking_pipeline_def split_sample_doc enrich_chunk_def enrich_empty
        new_chunk_blank w s del: new_chunk.simps)
qed

text \<open>The theorem at the sample document, when the model is down and when it replies
  \<open>{}\<close>.\<close>

theorem category_importance_as_enriched_witness:
  "agentic_chunking_pipeline model_down [sample_doc] = Some (Inr [default_chunk 0]) \<and>
   (0::nat) < length [default_chunk 0] \<and>
   enrich_try model_down 0 (c_text (default_chunk 0)) = Inl (ServiceError (ustr ''Read timed out'')) \<and>
   valid_category (c_category (default_chunk 0)) \<and>
   valid_importance (c_importance (default_chunk 0)) \<and>
   agentic_chunking_pipeline (model_replies body_empty) [sample_doc] = Some (Inr [blank_chunk 0]) \<and>
   (0::nat) < length [blank_chunk 0] \<and>
   enrich_chunk (model_replies body_empty) 0 (c_text (blank_chunk 0)) (c_source (blank_chunk 0)) = JObj [] \<and>
   map_of ([]::(ustring \<times> json) list) (ustr ''category'') = None \<and>
   map_of ([]::(ustring \<times> json) list) (ustr ''importance'') = None \<and>
   valid_category (c_category (blank_chunk 0)) \<and>
   valid_importance (c_importance (blank_chunk 0))"
proof -
  have e: "enrich_chunk (model_replies body_empty) 0 (c_text (blank_chunk 0)) (c_source (blank_chunk 0)) = JObj []"
    by (simp add: enrich_chunk_def enrich_empty)
  from category_importance_as_enriched[OF pipeline_empty, of 0] e
  have b: "valid_category (c_category (blank_chunk 0)) \<and> valid_importance (c_importance (blank_chunk 0))"
    by auto
  from category_importance_as_enriched[OF pipeline_down, of 0]
    enrich_down[of 0 "c_text (default_chunk 0)"]
  have d: "valid_category (c_category (default_chunk 0)) \<and> valid_importance (c_importance (default_chunk 0))"
    by auto
  from b d e pipeline_down pipeline_empty enrich_down[of 0 "c_text (default_chunk 0)"]
  show ?thesis by simp
qed


text \<open>
  C7 as stated fails: when the model replies
  \<open>{"category": "Other", "importance": 11}\<close>, the catalog entry has that category and
  that importance.
\<close>

theorem category_importance_not_validated:
  "agentic_chunking_pipeline (model_replies body_other) [sample_doc] = Some (Inr [other_chunk 0]) \<and>
   c_category (other_chunk 0) = JStr (ustr ''Other'') \<and>
   c_importance (other_chunk 0) = JInt 11 \<and>
   \<not> valid_category (c_category (other_chunk 0)) \<and>
   \<not> valid_importance (c_importance (other_chunk 0))"
  using pipeline_one_other
  by (simp add: other_chunk_def valid_category_def valid_importance_def ustr_def)

text \<open>
  C10. When the call of the model succeeds and its text parses as a JSON object, the
  loop appends an entry and goes on to the next chunk; a field the object lacks gets its
  own default (title \<open>""\<close>, summary \<open>""\<close>, keywords \<open>[]\<close>, category \<open>"General"\<close>,
  importance \<open>5\<close>), so a missing title is the empty string and not
  \<open>"General Information"\<close>.
\<close>

theorem missing_fields_get_field_defaults:
  assumes "invoke_model S n (enrich_prompt chunk) = Inr body"
    and "json_loads S body = Inr output"
    and "message_text output = Inr raw"
    and "sanitize raw = Inr raw'"
    and "json_loads S raw' = Inr (JObj kvs)"
  shows "\<exists>c. enrich_all S source (chunk # rest) all_chunks n =
           enrich_all S source rest (all_chunks @ [c]) (n + 1) \<and>
     c_id c = n \<and> c_source c = source \<and> c_text c = chunk \<and>
     c_title c = (case map_of kvs (ustr ''title'') of Some v \<Rightarrow> v | None \<Rightarrow> JStr []) \<and>
     c_summary c = (case map_of kvs (ustr ''summary'') of Some v \<Rightarrow> v | None \<Rightarrow> JStr []) \<and>
     c_keywords c = (case map_of kvs (ustr ''keywords'') of Some v \<Rightarrow> v | None \<Rightarrow> JArr []) \<and>
     c_category c =
       (case map_of kvs (ustr ''category'') of Some v \<Rightarrow> v | None \<Rightarrow> JStr (ustr ''General'')) \<and>
     c_importance c = (case map_of kvs (ustr ''importance'') of Some v \<Rightarrow> v | None \<Rightarrow> JInt 5) \<and>
     (map_of kvs (ustr ''title'') = None \<longrightarrow> c_title c \<noteq> JStr (ustr ''General Information''))"
proof -
  have "enrich_try S n chunk = Inr (JObj kvs)"
    unfolding enrich_try_Inr_iff using assms by blast
  then have e: "enrich_chunk S n chunk source = JObj kvs"
    by (simp add: enrich_chunk_def)
  have ne: "[] \<noteq> ustr ''General Information''"
    by (simp add: ustr_def)
  show ?thesis
    by (rule exI[of _ "\<lparr>c_id = n, c_source = source, c_text = chunk,
          c_title = dict_get kvs (ustr ''title'') (JStr []),
          c_summary = dict_get kvs (ustr ''summary'') (JStr []),
          c_keywords = dict_get kvs (ustr ''keywords'') (JArr []),
          c_category = dict_get kvs (ustr ''category'') (JStr (ustr ''General'')),
          c_importance = dict_get kvs (ustr ''importance'') (JInt 5)\<rparr>"])
      (simp add: e dict_get_def ne)
qed

text \<open>The theorem at the sample chunk when the model replies
  \<open>{"category": "Other", "importance": 11}\<close>.\<close>

theorem missing_fields_get_field_defaults_witness:
  "invoke_model (model_replies body_other) 0 (enrich_prompt sample_chunk) = Inr body_other \<and>
   json_loads (model_replies body_other) body_other = Inr (envelope text_other) \<and>
   message_text (envelope text_other) = Inr (JStr text_other) \<and>
   sanitize (JStr text_other) = Inr text_other \<and>
   json_loads (model_replies body_other) text_other =
     Inr (JObj [(ustr ''category'', JStr (ustr ''Other'')), (ustr ''importance'', JInt 11)]) \<and>
   (\<exists>c. enrich_all (model_replies body_other) (ustr ''guide.pdf'') [sample_chunk] [] 0 =
          Inr ([c], 1) \<and>
        c_title c = JStr [] \<and> c_summary c = JStr [] \<and> c_keywords c = JArr [] \<and>
        c_category c = JStr (ustr ''Other'') \<and> c_importance c = JInt 11)"
proof -
  let ?S = "model_replies body_other"
  have 1: "invoke_model ?S 0 (enrich_prompt sample_chunk) = Inr body_other"
    by (simp add: model_replies_simps)
  have 2: "json_loads ?S body_other = Inr (envelope text_other)"
    unfolding model_replies_simps by code_simp
  have 3: "message_text (envelope text_other) = Inr (JStr text_other)"
    by (rule message_text_envelope)
  have 4: "sanitize (JStr text_other) = Inr text_other" by code_simp
  have 5: "json_loads ?S text_other =
     Inr (JObj [(ustr ''category'', JStr (ustr ''Other'')), (ustr ''importance'', JInt 11)])"
    unfolding model_replies_simps by code_simp
  from missing_fields_get_field_defaults[OF 1 2 3 4 5, of "ustr ''guide.pdf''" "[]" "[]"]
  obtain c where
    "enrich_all ?S (ustr ''guide.pdf'') [sample_chunk] [] 0 =
       enrich_all ?S (ustr ''guide.pdf'') [] ([] @ [c]) (0 + 1)"
    "c_title c = JStr []" "c_summary c = JStr []" "c_keywords c = JArr []"
    "c_category c = JStr (ustr ''Other'')" "c_importance c = JInt 11"
    by (auto simp: ustr_def)
  then have "enrich_all ?S (ustr ''guide.pdf'') [sample_chunk] [] 0 = Inr ([c], 1) \<and>
        c_title c = JStr [] \<and> c_summary c = JStr [] \<and> c_keywords c = JArr [] \<and>
        c_category c = JStr (ustr ''Other'') \<and> c_importance c = JInt 11"
    by simp
  then have "\<exists>c. enrich_all ?S (ustr ''guide.pdf'') [sample_chunk] [] 0 = Inr ([c], 1) \<and>
        c_title c = JStr [] \<and> c_summary c = JStr [] \<and> c_keywords c = JArr [] \<and>
        c_category c = JStr (ustr ''Other'') \<and> c_importance c = JInt 11" ..
  with 1 2 3 4 5 show ?thesis by (intro conjI)
qed

section \<open>Properties of the index build\<close>

lemma text_to_embed_strings:
  "c_title c = JStr t \<Longrightarrow> c_summary c = JStr s \<Longrightarrow>
   text_to_embed S c = t @ 32 # s @ 32 # c_text c"
  by (simp add: text_to_embed_def fstr_def)

lemma build_points_vectors:
  "build_points S n chunks pts = Inr pts' \<Longrightarrow>
   \<exists>vs. length vs = length chunks \<and>
     (\<forall>k < length chunks. encode S (n + k) (text_to_embed S (chunks ! k)) = Inr (vs ! k)) \<and>
     pts' = pts @ map (\<lambda>cv. \<lparr>point_id = c_id (fst cv), vector = snd cv,
                               payload = chunk_payload (fst cv)\<rparr>) (zip chunks vs)"
proof (induction chunks arbitrary: n pts)
  case Nil
  then show ?case by simp
next
  case (Cons chunk chunks)
  from Cons.prems obtain v where
    v: "encode S n (text_to_embed S chunk) = Inr v"
    and r: "build_points S (n + 1) chunks
       (pts @ [\<lparr>point_id = c_id chunk, vector = v, payload = chunk_payload chunk\<rparr>]) = Inr pts'"
    by (auto split: sum.splits)
  from Cons.IH[OF r] obtain vs where
    l: "length vs = length chunks"
    and e: "\<forall>k < length chunks. encode S (n + 1 + k) (text_to_embed S (chunks ! k)) = Inr (vs ! k)"
    and p: "pts' = (pts @ [\<lparr>point_id = c_id chunk, vector = v, payload = chunk_payload chunk\<rparr>])
        @ map (\<lambda>cv. \<lparr>point_id = c_id (fst cv), vector = snd cv,
                       payload = chunk_payload (fst cv)\<rparr>) (zip chunks vs)"
    by blast
  have e': "\<forall>k < length (chunk # chunks).
      encode S (n + k) (text_to_embed S ((chunk # chunks) ! k)) = Inr ((v # vs) ! k)"
  proof (intro allI impI)
    fix k assume "k < length (chunk # chunks)"
    then show "encode S (n + k) (text_to_embed S ((chunk # chunks) ! k)) = Inr ((v # vs) ! k)"
      using v e by (cases k) simp_all
  qed
  show ?case
    by (rule exI[of _ "v # vs"]) (use l e' p in simp)
qed

lemma fold_points_zip:
  "fold (\<lambda>p m. m(point_id p \<mapsto> (vector p, payload p)))
     (map (\<lambda>cv. \<lparr>point_id = c_id (fst cv), vector = snd cv,
                    payload = chunk_payload (fst cv)\<rparr>) cvs) m =
   fold (\<lambda>cv m. m(c_id (fst cv) \<mapsto> (snd cv, chunk_payload (fst cv)))) cvs m"
  by (induction cvs arbitrary: m) simp_all

lemma fold_zip_payload:
  "length vs = length chunks \<Longrightarrow>
   (\<lambda>i. map_option snd
      (fold (\<lambda>cv m. m(c_id (fst cv) \<mapsto> (snd cv, chunk_payload (fst cv)))) (zip chunks vs) m i)) =
   fold (\<lambda>c m. m(c_id c \<mapsto> chunk_payload c)) chunks (\<lambda>j. map_option snd (m j))"
proof (induction chunks arbitrary: vs m)
  case Nil
  then show ?case by simp
next
  case (Cons c chunks)
  then obtain v vs' where vs: "vs = v # vs'" "length vs' = length chunks"
    by (cases vs) auto
  have u: "(\<lambda>j. map_option snd ((m(c_id c \<mapsto> (v, chunk_payload c))) j)) =
        (\<lambda>j. map_option snd (m j))(c_id c \<mapsto> chunk_payload c)"
    by (rule ext) simp
  have "(\<lambda>i. map_option snd
      (fold (\<lambda>cv m. m(c_id (fst cv) \<mapsto> (snd cv, chunk_payload (fst cv))))
         (zip (c # chunks) (v # vs')) m i)) =
    (\<lambda>i. map_option snd
      (fold (\<lambda>cv m. m(c_id (fst cv) \<mapsto> (snd cv, chunk_payload (fst cv))))
         (zip chunks vs') (m(c_id c \<mapsto> (v, chunk_payload c))) i))"
    by simp
  also have "\<dots> = fold (\<lambda>c m. m(c_id c \<mapsto> chunk_payload c)) chunks
      (\<lambda>j. map_option snd ((m(c_id c \<mapsto> (v, chunk_payload c))) j))"
    by (rule Cons.IH[OF vs(2)])
  also have "\<dots> = fold (\<lambda>c m. m(c_id c \<mapsto> chunk_payload c)) chunks
      ((\<lambda>j. map_option snd (m j))(c_id c \<mapsto> chunk_payload c))"
    by (simp only: u)
  also have "\<dots> = fold (\<lambda>c m. m(c_id c \<mapsto> chunk_payload c)) (c # chunks)
      (\<lambda>j. map_option snd (m j))"
    by simp
  finally show ?case unfolding vs(1) .
qed

lemma dom_fold_catalog:
  "dom (fold (\<lambda>c m. m(c_id c \<mapsto> chunk_payload c)) chunks m) = dom m \<union> c_id ` set chunks"
  by (induction chunks arbitrary: m) auto

lemma create_collection_empty: "create_collection q COLLECTION = Some Map.empty"
  by (simp add: create_collection_def Let_def)

lemma data_ingestion_content:
  assumes "data_ingestion S chunks q = Inr r"
  shows "\<exists>vs. length vs = length chunks \<and>
     (\<forall>k < length chunks. encode S k (text_to_embed S (chunks ! k)) = Inr (vs ! k)) \<and>
     r COLLECTION =
       Some (fold (\<lambda>cv m. m(c_id (fst cv) \<mapsto> (snd cv, chunk_payload (fst cv))))
               (zip chunks vs) Map.empty)"
proof -
  from assms obtain pts where
    b: "build_points S 0 chunks [] = Inr pts"
    and u: "upsert (create_collection q) COLLECTION pts = Inr r"
    by (auto simp: data_ingestion_def ingest_chunks_def split: sum.splits)
  from u have r: "r COLLECTION =
      Some (fold (\<lambda>p m. m(point_id p \<mapsto> (vector p, payload p))) pts Map.empty)"
    by (auto simp: upsert_def create_collection_empty split: if_splits)
  from build_points_vectors[OF b] obtain vs where
    l: "length vs = length chunks"
    and e: "\<forall>k < length chunks. encode S (0 + k) (text_to_embed S (chunks ! k)) = Inr (vs ! k)"
    and p: "pts = [] @ map (\<lambda>cv. \<lparr>point_id = c_id (fst cv), vector = snd cv,
                               payload = chunk_payload (fst cv)\<rparr>) (zip chunks vs)"
    by blast
  from r p have "r COLLECTION =
       Some (fold (\<lambda>cv m. m(c_id (fst cv) \<mapsto> (snd cv, chunk_payload (fst cv))))
               (zip chunks vs) Map.empty)"
    by (simp add: fold_points_zip)
  with l e show ?thesis by auto
qed

lemma data_ingestion_index:
  assumes "data_ingestion S chunks q = Inr r"
  shows "index_payload r = catalog_index chunks"
proof -
  from data_ingestion_content[OF assms] obtain vs where
    l: "length vs = length chunks"
    and r: "r COLLECTION =
       Some (fold (\<lambda>cv m. m(c_id (fst cv) \<mapsto> (snd cv, chunk_payload (fst cv))))
               (zip chunks vs) Map.empty)"
    by blast
  have "index_payload r =
      (\<lambda>i. map_option snd
        (fold (\<lambda>cv m. m(c_id (fst cv) \<mapsto> (snd cv, chunk_payload (fst cv))))
               (zip chunks vs) Map.empty i))"
    by (rule ext) (simp add: index_payload_def r)
  also have "\<dots> = fold (\<lambda>c m. m(c_id c \<mapsto> chunk_payload c)) chunks Map.empty"
    by (simp add: fold_zip_payload[OF l])
  finally show ?thesis by (simp add: catalog_index_def)
qed

lemma index_ids_payload: "index_ids r = dom (index_payload r)"
  by (auto simp: index_ids_def index_payload_def dom_def split: option.splits)

lemma build_points_length:
  "build_points S n chunks pts = Inr pts' \<Longrightarrow> length pts' = length pts + length chunks"
  using build_points_vectors[of S n chunks pts pts'] by auto

lemma build_points_succeeds:
  "\<forall>n s. \<exists>v. encode S n s = Inr v \<Longrightarrow> \<exists>pts'. build_points S n chunks pts = Inr pts'"
proof (induction chunks arbitrary: n pts)
  case Nil
  then show ?case by simp
next
  case (Cons chunk chunks)
  from Cons.prems obtain v where v: "encode S n (text_to_embed S chunk) = Inr v" by blast
  from Cons.IH[OF Cons.prems] v show ?case by simp
qed

lemma data_ingestion_succeeds:
  assumes "\<forall>n s. \<exists>v. encode S n s = Inr v" and "chunks \<noteq> []"
  shows "\<exists>r. data_ingestion S chunks q = Inr r"
proof -
  from build_points_succeeds[OF assms(1)] obtain pts where
    b: "build_points S 0 chunks [] = Inr pts"
    by blast
  from build_points_length[OF b] assms(2) have "pts \<noteq> []" by auto
  with b show ?thesis
    by (simp add: data_ingestion_def ingest_chunks_def upsert_def create_collection_empty)
qed

lemma data_ingestion_empty_catalog: "data_ingestion S [] q = Inl UnexpectedResponse"
  by (simp add: data_ingestion_def ingest_chunks_def upsert_def create_collection_empty)

lemma data_ingestion_embeds:
  assumes "data_ingestion S chunks q = Inr r"
  shows "\<exists>vs. length vs = length chunks \<and>
        (\<forall>k < length chunks.
           encode S k (fstr S (c_title (chunks ! k)) @ 32 # fstr S (c_summary (chunks ! k))
                         @ 32 # c_text (chunks ! k)) = Inr (vs ! k)) \<and>
        (\<forall>k < length chunks. \<forall>t s.
           c_title (chunks ! k) = JStr t \<and> c_summary (chunks ! k) = JStr s \<longrightarrow>
           encode S k (t @ 32 # s @ 32 # c_text (chunks ! k)) = Inr (vs ! k)) \<and>
        r COLLECTION =
          Some (fold (\<lambda>cv m. m(c_id (fst cv) \<mapsto> (snd cv, chunk_payload (fst cv))))
                  (zip chunks vs) Map.empty)"
proof -
  from data_ingestion_content[OF assms] obtain vs where
    l: "length vs = length chunks"
    and e: "\<forall>k < length chunks. encode S k (text_to_embed S (chunks ! k)) = Inr (vs ! k)"
    and r: "r COLLECTION =
        Some (fold (\<lambda>cv m. m(c_id (fst cv) \<mapsto> (snd cv, chunk_payload (fst cv))))
                (zip chunks vs) Map.empty)"
    by blast
  have g: "\<forall>k < length chunks.
         encode S k (fstr S (c_title (chunks ! k)) @ 32 # fstr S (c_summary (chunks ! k))
                       @ 32 # c_text (chunks ! k)) = Inr (vs ! k)"
    using e by (simp add: text_to_embed_def)
  have s: "\<forall>k < length chunks. \<forall>t s.
         c_title (chunks ! k) = JStr t \<and> c_summary (chunks ! k) = JStr s \<longrightarrow>
         encode S k (t @ 32 # s @ 32 # c_text (chunks ! k)) = Inr (vs ! k)"
  proof (intro allI impI)
    fix k t s
    assume k: "k < length chunks"
      and ts: "c_title (chunks ! k) = JStr t \<and> c_summary (chunks ! k) = JStr s"
    from ts have "text_to_embed S (chunks ! k) = t @ 32 # s @ 32 # c_text (chunks ! k)"
      by (simp add: text_to_embed_strings)
    with e k show "encode S k (t @ 32 # s @ 32 # c_text (chunks ! k)) = Inr (vs ! k)"
      by auto
  qed
  show ?thesis
    by (intro exI[of _ vs] conjI) (rule l g s r)+
qed

text \<open>
  C8. A run of the script that finishes leaves under the collection name a fresh
  collection whose points are exactly the entries of the catalog, each stored under its
  id with its payload and with the vector the embedding model gave for the entry's
  title, summary and text joined by single spaces; nothing the index held before
  remains. So two runs on the same catalog that both finish leave the same ids and the
  same payload under every id (the ids of the catalog), whatever the index held before
  each run and whatever vectors the embedding model gave. The second run may start from
  the index the first one left.
\<close>

theorem rebuild_same_index:
  assumes "data_ingestion S1 chunks q1 = Inr r1" and "data_ingestion S2 chunks q2 = Inr r2"
  shows "index_ids r1 = index_ids r2 \<and> index_payload r1 = index_payload r2 \<and>
     index_ids r1 = c_id ` set chunks \<and>
     (\<exists>vs. length vs = length chunks \<and>
        (\<forall>k < length chunks.
           encode S1 k (fstr S1 (c_title (chunks ! k)) @ 32 # fstr S1 (c_summary (chunks ! k))
                         @ 32 # c_text (chunks ! k)) = Inr (vs ! k)) \<and>
        (\<forall>k < length chunks. \<forall>t s.
           c_title (chunks ! k) = JStr t \<and> c_summary (chunks ! k) = JStr s \<longrightarrow>
           encode S1 k (t @ 32 # s @ 32 # c_text (chunks ! k)) = Inr (vs ! k)) \<and>
        r1 COLLECTION =
          Some (fold (\<lambda>cv m. m(c_id (fst cv) \<mapsto> (snd cv, chunk_payload (fst cv))))
                  (zip chunks vs) Map.empty)) \<and>
     (\<exists>vs. length vs = length chunks \<and>
        (\<forall>k < length chunks.
           encode S2 k (fstr S2 (c_title (chunks ! k)) @ 32 # fstr S2 (c_summary (chunks ! k))
                         @ 32 # c_text (chunks ! k)) = Inr (vs ! k)) \<and>
        (\<forall>k < length chunks. \<forall>t s.
           c_title (chunks ! k) = JStr t \<and> c_summary (chunks ! k) = JStr s \<longrightarrow>
           encode S2 k (t @ 32 # s @ 32 # c_text (chunks ! k)) = Inr (vs ! k)) \<and>
        r2 COLLECTION =
          Some (fold (\<lambda>cv m. m(c_id (fst cv) \<mapsto> (snd cv, chunk_payload (fst cv))))
                  (zip chunks vs) Map.empty))"
proof -
  have 1: "index_payload r1 = catalog_index chunks" by (rule data_ingestion_index[OF assms(1)])
  have 2: "index_payload r2 = catalog_index chunks" by (rule data_ingestion_index[OF assms(2)])
  have 3: "dom (catalog_index chunks) = c_id ` set chunks"
    by (simp add: catalog_index_def dom_fold_catalog)
  have a: "index_ids r1 = index_ids r2" using 1 2 by (simp add: index_ids_payload)
  have c: "index_ids r1 = c_id ` set chunks" using 1 3 by (simp add: index_ids_payload)
  have b: "index_payload r1 = index_payload r2" using 1 2 by simp
  show ?thesis
    by (intro conjI) (rule a b c data_ingestion_embeds[OF assms(1)] data_ingestion_embeds[OF assms(2)])+
qed

text \<open>The theorem at a catalog of two entries, built first on an empty server and then
  again, with another embedding model, on what the first build left.\<close>

theorem rebuild_same_index_witness:
  "\<exists>r1 r2. data_ingestion model_down [default_chunk 0, other_chunk 1] Map.empty = Inr r1 \<and>
     data_ingestion other_embedder [default_chunk 0, other_chunk 1] r1 = Inr r2 \<and>
     index_ids r1 = index_ids r2 \<and> index_payload r1 = index_payload r2 \<and> index_ids r1 = {0, 1} \<and>
     r1 COLLECTION =
       Some [0 \<mapsto> (length (ustr ''General Information'' @ 32 # take 100 sample_chunk
                              @ 32 # sample_chunk), chunk_payload (default_chunk 0)),
             1 \<mapsto> (length (32 # 32 # sample_chunk), chunk_payload (other_chunk 1))] \<and>
     r2 COLLECTION =
       Some [0 \<mapsto> (0, chunk_payload (default_chunk 0)),
             1 \<mapsto> (0, chunk_payload (other_chunk 1))]"
proof -
  let ?cat = "[default_chunk 0, other_chunk 1]"
  have ne: "?cat \<noteq> []" by simp
  have "\<forall>n s. \<exists>v. encode model_down n s = Inr v" by (simp add: model_down_def)
  from data_ingestion_succeeds[OF this ne] obtain r1 where
    1: "data_ingestion model_down ?cat Map.empty = Inr r1" by blast
  have "\<forall>n s. \<exists>v. encode other_embedder n s = Inr v" by (simp add: other_embedder_def)
  from data_ingestion_succeeds[OF this ne] obtain r2 where
    2: "data_ingestion other_embedder ?cat r1 = Inr r2" by blast
  have d: "c_id ` set ?cat = {0, 1}"
    by (simp add: default_chunk_def other_chunk_def)
  note t = rebuild_same_index[OF 1 2]
  from t have a: "index_ids r1 = index_ids r2"
    and b: "index_payload r1 = index_payload r2"
    and c: "index_ids r1 = c_id ` set ?cat"
    by blast+
  from c d have e: "index_ids r1 = {0, 1}" by (rule trans)
  from t obtain vs1 where
    l1: "length vs1 = length ?cat"
    and s1: "\<forall>k < length ?cat. \<forall>t s.
           c_title (?cat ! k) = JStr t \<and> c_summary (?cat ! k) = JStr s \<longrightarrow>
           encode model_down k (t @ 32 # s @ 32 # c_text (?cat ! k)) = Inr (vs1 ! k)"
    and c1: "r1 COLLECTION =
          Some (fold (\<lambda>cv m. m(c_id (fst cv) \<mapsto> (snd cv, chunk_payload (fst cv))))
                  (zip ?cat vs1) Map.empty)"
    by blast
  from t obtain vs2 where
    l2: "length vs2 = length ?cat"
    and s2: "\<forall>k < length ?cat. \<forall>t s.
           c_title (?cat ! k) = JStr t \<and> c_summary (?cat ! k) = JStr s \<longrightarrow>
           encode other_embedder k (t @ 32 # s @ 32 # c_text (?cat ! k)) = Inr (vs2 ! k)"
    and c2: "r2 COLLECTION =
          Some (fold (\<lambda>cv m. m(c_id (fst cv) \<mapsto> (snd cv, chunk_payload (fst cv))))
                  (zip ?cat vs2) Map.empty)"
    by blast
  from l1 obtain x0 x1 where vs1: "vs1 = [x0, x1]"
    by (auto simp: length_Suc_conv)
  from l2 obtain y0 y1 where vs2: "vs2 = [y0, y1]"
    by (auto simp: length_Suc_conv)
  have enc1: "encode model_down k s = Inr (length s)" for k s
    by (simp add: model_down_def)
  have enc2: "encode other_embedder k s = Inr 0" for k s
    by (simp add: other_embedder_def)
  have f0: "c_title (default_chunk 0) = JStr (ustr ''General Information'')"
    "c_summary (default_chunk 0) = JStr (take 100 sample_chunk)"
    "c_text (default_chunk 0) = sample_chunk" "c_id (default_chunk 0) = 0"
    by (simp_all add: default_chunk_def)
  have f1: "c_title (other_chunk 1) = JStr []" "c_summary (other_chunk 1) = JStr []"
    "c_text (other_chunk 1) = sample_chunk" "c_id (other_chunk 1) = 1"
    by (simp_all add: other_chunk_def)
  from s1[rule_format, of 0 "ustr ''General Information''" "take 100 sample_chunk"]
  have x0: "x0 = length (ustr ''General Information'' @ 32 # take 100 sample_chunk
                              @ 32 # sample_chunk)"
    unfolding vs1 enc1 using f0 by simp
  from s1[rule_format, of 1 "[]" "[]"]
  have x1: "x1 = length (32 # 32 # sample_chunk)"
    unfolding vs1 enc1 using f1 by simp
  from s2[rule_format, of 0 "ustr ''General Information''" "take 100 sample_chunk"]
  have y0: "y0 = 0"
    unfolding vs2 enc2 using f0 by simp
  from s2[rule_format, of 1 "[]" "[]"]
  have y1: "y1 = 0"
    unfolding vs2 enc2 using f1 by simp
  have g1: "r1 COLLECTION =
       Some [0 \<mapsto> (length (ustr ''General Information'' @ 32 # take 100 sample_chunk
                              @ 32 # sample_chunk), chunk_payload (default_chunk 0)),
             1 \<mapsto> (length (32 # 32 # sample_chunk), chunk_payload (other_chunk 1))]"
    unfolding c1 vs1 x0 x1 using f0(4) f1(4) by simp
  have g2: "r2 COLLECTION =
       Some [0 \<mapsto> (0, chunk_payload (default_chunk 0)),
             1 \<mapsto> (0, chunk_payload (other_chunk 1))]"
    unfolding c2 vs2 y0 y1 using f0(4) f1(4) by simp
  show ?thesis
    by (intro exI[of _ r1] exI[of _ r2] conjI) (rule 1 2 a b e g1 g2)+
qed

section \<open>Properties of rag_answer\<close>

lemma rag_try_cases:
  "(\<exists>e c. rag_try S question hist top_k show_sources =
            (\<lparr>history = hist, model_calls = c\<rparr>, Inl e)) \<or>
   (\<exists>a src c. rag_try S question hist top_k show_sources =
            (\<lparr>history = hist @ [\<lparr>role = User, content = JStr question\<rparr>,
                                 \<lparr>role = Assistant, content = a\<rparr>], model_calls = c\<rparr>, Inr src))"
proof (cases "encode S 0 question")
  case (Inl e)
  then show ?thesis by (simp add: rag_try_def)
next
  case enc: (Inr v)
  show ?thesis
  proof (cases "query_points S v top_k")
    case (Inl e)
    with enc show ?thesis by (simp add: rag_try_def)
  next
    case q: (Inr points)
    show ?thesis
    proof (cases "points = []")
      case True
      with enc q show ?thesis by (simp add: rag_try_def)
    next
      case ne: False
      show ?thesis
      proof (cases "collect_points S points [] []")
        case (Inl e)
        with enc q ne show ?thesis by (simp add: rag_try_def)
      next
        case col: (Inr p)
        obtain cc srcs where p: "p = (cc, srcs)" by (cases p)
        show ?thesis
        proof (cases "invoke_model S 0 (rag_prompt (py_join [10, 10] cc) question)")
          case (Inl e)
          with enc q ne col p show ?thesis by (simp add: rag_try_def)
        next
          case inv: (Inr body)
          show ?thesis
          proof (cases "json_loads S body")
            case (Inl e)
            with enc q ne col p inv show ?thesis by (simp add: rag_try_def)
          next
            case lo: (Inr out)
            show ?thesis
            proof (cases "message_text out")
              case (Inl e)
              with enc q ne col p inv lo show ?thesis by (simp add: rag_try_def)
            next
              case (Inr answer)
              with enc q ne col p inv lo show ?thesis by (simp add: rag_try_def)
            qed
          qed
        qed
      qed
    qed
  qed
qed

lemma rag_try_raises:
  assumes "rag_try S question hist top_k show_sources = (r, Inl e)"
  shows "history r = hist"
  using rag_try_cases[of S question hist top_k show_sources] assms by auto

lemma rag_try_returns:
  assumes "rag_try S question hist top_k show_sources = (r, Inr src)"
  shows "\<exists>a. history r = hist @ [\<lparr>role = User, content = JStr question\<rparr>,
                                  \<lparr>role = Assistant, content = a\<rparr>]"
  using rag_try_cases[of S question hist top_k show_sources] assms by auto



text \<open>
  C9. On every path \<open>rag_answer\<close> returns the history it was given followed by exactly
  two turns: the user's question, then one assistant turn.
\<close>

theorem rag_answer_appends_two_turns:
  "\<exists>a. fst (fst (rag_answer S question hist top_k show_sources)) =
     hist @ [\<lparr>role = User, content = JStr question\<rparr>, \<lparr>role = Assistant, content = a\<rparr>]"
proof (cases "rag_try S question hist top_k show_sources")
  case (Pair r res)
  show ?thesis
  proof (cases res)
    case (Inl e)
    with Pair rag_try_raises[of S question hist top_k show_sources r e]
    show ?thesis by (simp add: rag_answer_def)
  next
    case (Inr src)
    with Pair rag_try_returns[of S question hist top_k show_sources r src]
    show ?thesis by (auto simp: rag_answer_def)
  qed
qed






end
